theory Spec2Isabelle
  imports Main
begin

section \<open>The text buffer of a view (edit.go)\<close>

text \<open>
  A shallow embedding of \<^verbatim>\<open>edit.go\<close>. A value of Go's \<^verbatim>\<open>int\<close> is an \<^typ>\<open>int\<close>
  in the range of 64 bits; the sums of \<^verbatim>\<open>MoveCursor\<close>, whose arguments are any two
  machine integers, wrap around (see \<open>addInt\<close>). The other sums of the file (a
  coordinate plus or minus one, an offset and a window size) are the unbounded ones. A
  slice is modelled by the list of its elements; the edit primitives never make two
  lines share a backing array, so the value of a line does not depend on the other
  lines.
\<close>

subsection \<open>Data\<close>

type_synonym rune = int
type_synonym Attribute = nat
type_synonym Modifier = nat

text \<open>The cell literal of \<^verbatim>\<open>writeRune\<close> names the three fields of a cell.\<close>

record cell =
  fgColor :: Attribute
  bgColor :: Attribute
  chr :: rune

text \<open>The fields of \<^verbatim>\<open>View\<close> that edit.go reads or writes.\<close>

record view =
  lines :: "cell list list"
  cx :: int
  cy :: int
  ox :: int
  oy :: int
  Overwrite :: bool
  Wrap :: bool
  tainted :: bool
  FgColor :: Attribute
  BgColor :: Attribute

text \<open>\<^verbatim>\<open>errors.New("invalid point")\<close> is the only error value of the file.\<close>

datatype error = InvalidPoint

text \<open>
  A call either returns or stops with a run-time panic (a slice expression with a
  negative bound in \<^verbatim>\<open>breakLine\<close>).
\<close>

datatype 'a outcome = Returns 'a | Panics

subsection \<open>Go built-ins\<close>

definition len :: "'a list \<Rightarrow> int" where
  "len xs = int (length xs)"

text \<open>\<^verbatim>\<open>make([]cell, n)\<close> holds \<open>n\<close> zero values of the cell type.\<close>

definition zero_cell :: cell where
  "zero_cell = \<lparr>fgColor = 0, bgColor = 0, chr = 0\<rparr>"

text \<open>
  \<^verbatim>\<open>copy(dst, src)\<close> overwrites the first \<open>min (len dst) (len src)\<close> elements of
  \<open>dst\<close>; it reads the source as it was before the call, also when the two overlap.
  The result is the new content of \<open>dst\<close>.
\<close>

definition go_copy :: "'a list \<Rightarrow> 'a list \<Rightarrow> 'a list" where
  "go_copy dst src =
     (let n = min (length dst) (length src) in take n src @ drop n dst)"

subsection \<open>Machine integers\<close>

text \<open>
  Go's \<^verbatim>\<open>int\<close> has 64 bits on the platforms of the program: its values lie between
  \<open>minInt\<close> and \<open>maxInt\<close>, and a sum that leaves the range wraps around.
\<close>

definition maxInt :: int where
  "maxInt = 9223372036854775807"

definition minInt :: int where
  "minInt = - 9223372036854775808"

definition fits :: "int \<Rightarrow> bool" where
  "fits i \<longleftrightarrow> minInt \<le> i \<and> i \<le> maxInt"

definition wrapInt :: "int \<Rightarrow> int" where
  "wrapInt i = (i - minInt) mod 18446744073709551616 + minInt"

text \<open>
  The lists and integers of the model are unbounded, those of the program are not: in a
  state of the program the cursor is a pair of machine integers, and a slice of lines or
  of cells (a cell takes more than one byte) has fewer than \<open>maxInt\<close> elements. A view
  outside these bounds is not a state of the program.
\<close>

definition machineState :: "view \<Rightarrow> bool" where
  "machineState v \<longleftrightarrow>
     fits (cx v) \<and> fits (cy v) \<and> len (lines v) < maxInt \<and>
     list_all (\<lambda>line. len line < maxInt) (lines v)"

text \<open>
  The sum \<^verbatim>\<open>a + b\<close> of two machine integers in the state \<open>v\<close>: it wraps around. On a
  view that is not a state of the program the sum is the unbounded one.
\<close>

definition addInt :: "view \<Rightarrow> int \<Rightarrow> int \<Rightarrow> int" where
  "addInt v a b = (if machineState v then wrapInt (a + b) else a + b)"

subsection \<open>Edit primitives\<close>

definition writeRune :: "int \<Rightarrow> int \<Rightarrow> rune \<Rightarrow> view \<Rightarrow> view \<times> error option" where
  "writeRune x y ch v0 =
     (let v = v0\<lparr>tainted := True\<rparr> in
      if x < 0 \<or> y < 0 then (v, Some InvalidPoint)
      else
        let ls = (if y \<ge> len (lines v)
                  then lines v @ replicate (nat (y - len (lines v) + 1)) []
                  else lines v);
            line = ls ! nat y;
            lineLen = len line;
            toInsert = (if x \<ge> lineLen then replicate (nat (x - lineLen + 1)) zero_cell
                        else if \<not> Overwrite v then replicate 1 zero_cell
                        else []);
            l1 = line @ toInsert;
            l2 = (if \<not> Overwrite v \<or> (Overwrite v \<and> x + 1 \<ge> lineLen)
                  then take (nat (x + 1)) l1 @ go_copy (drop (nat (x + 1)) l1) (drop (nat x) l1)
                  else l1);
            l3 = l2[nat x := \<lparr>fgColor = FgColor v, bgColor = BgColor v, chr = ch\<rparr>]
        in (v\<lparr>lines := ls[nat y := l3]\<rparr>, None))"

definition deleteRune :: "int \<Rightarrow> int \<Rightarrow> view \<Rightarrow> view \<times> error option" where
  "deleteRune x y v0 =
     (let v = v0\<lparr>tainted := True\<rparr> in
      if x < 0 \<or> y < 0 \<or> y \<ge> len (lines v) then (v, Some InvalidPoint)
      else if x \<ge> len (lines v ! nat y) then (v, Some InvalidPoint)
      else
        let line = lines v ! nat y
        in (v\<lparr>lines := (lines v)[nat y := take (nat x) line @ drop (nat (x + 1)) line]\<rparr>, None))"

definition mergeLines :: "int \<Rightarrow> view \<Rightarrow> view \<times> error option" where
  "mergeLines y v0 =
     (let v = v0\<lparr>tainted := True\<rparr> in
      if y < 0 \<or> y \<ge> len (lines v) then (v, Some InvalidPoint)
      else if y + 1 < len (lines v) then
        let ls = (lines v)[nat y := lines v ! nat y @ lines v ! nat (y + 1)]
        in (v\<lparr>lines := take (nat (y + 1)) ls @ drop (nat (y + 2)) ls\<rparr>, None)
      else (v, None))"

text \<open>
  In \<^verbatim>\<open>breakLine\<close> the slice expression \<^verbatim>\<open>v.lines[y][:x]\<close> panics for a negative
  \<open>x\<close>; the flag is already set then. The new line sequence is built as the code
  builds it: a fresh slice, two assignments and two copies.
\<close>

definition breakLine :: "int \<Rightarrow> int \<Rightarrow> view \<Rightarrow> view \<times> error option outcome" where
  "breakLine x y v0 =
     (let v = v0\<lparr>tainted := True\<rparr> in
      if y < 0 \<or> y \<ge> len (lines v) then (v, Returns (Some InvalidPoint))
      else if x < len (lines v ! nat y) \<and> x < 0 then (v, Panics)
      else
        let (left, right) =
              (if x < len (lines v ! nat y)
               then (take (nat x) (lines v ! nat y), drop (nat x) (lines v ! nat y))
               else (lines v ! nat y, []));
            n0 = replicate (nat (len (lines v) + 1)) [];
            n1 = n0[nat y := left];
            n2 = n1[nat (y + 1) := right];
            n3 = go_copy n2 (take (nat y) (lines v));
            n4 = take (nat (y + 2)) n3
                 @ go_copy (drop (nat (y + 2)) n3) (drop (nat (y + 1)) (lines v))
        in (v\<lparr>lines := n4\<rparr>, Returns None))"

subsection \<open>Collaborators\<close>

text \<open>
  \<^verbatim>\<open>View.Size\<close> and \<^verbatim>\<open>View.linesPosOnScreen\<close> are declared outside edit.go. They
  are parameters of the model: any two functions of the view. \<^verbatim>\<open>MoveCursor\<close> calls
  both before it changes a field.
\<close>

record collaborators =
  Size :: "view \<Rightarrow> int \<times> int"
  linesPosOnScreen :: "view \<Rightarrow> int \<Rightarrow> int \<Rightarrow> int \<times> int \<times> bool"

text \<open>
  Modelled from the spec: \<^verbatim>\<open>View.Cursor\<close> is declared outside edit.go; the spec
  describes it as the "current cursor (column, row) query".
\<close>

definition Cursor :: "view \<Rightarrow> int \<times> int" where
  "Cursor v = (cx v, cy v)"

text \<open>
  Modelled from the spec: \<^verbatim>\<open>View.SetCursor\<close> is declared outside edit.go; the spec
  describes it as an "explicit cursor set (subject to the same bounds clamping as
  moveCursor)": with no line the cursor is (0, 0), otherwise the row is clamped to the
  rows of the buffer and the column to the length of that row. Its error result is
  discarded by the only caller in edit.go.
\<close>

definition SetCursor :: "int \<Rightarrow> int \<Rightarrow> view \<Rightarrow> view" where
  "SetCursor x y v =
     (if len (lines v) = 0 then v\<lparr>cx := 0, cy := 0\<rparr>
      else
        let newY = (if y \<ge> len (lines v) then len (lines v) - 1 else y);
            newY = (if newY < 0 then 0 else newY);
            line = lines v ! nat newY;
            newX = (if x > len line then len line else x);
            newX = (if newX < 0 then 0 else newX)
        in v\<lparr>cx := newX, cy := newY\<rparr>)"

subsection \<open>Cursor and viewport\<close>

text \<open>
  Lines 158 and 165 to 196 of \<^verbatim>\<open>MoveCursor\<close>: the new logical cursor. The two sums
  of line 158 are sums of machine integers.
\<close>

definition cursorTarget :: "view \<Rightarrow> int \<Rightarrow> int \<Rightarrow> int \<times> int" where
  "cursorTarget v dx dy =
     (let newX = addInt v (cx v) dx;
          newY = addInt v (cy v) dy;
          newY = (if newY \<ge> len (lines v) then len (lines v) - 1 else newY);
          newY = (if newY < 0 then 0 else newY);
          line = lines v ! nat newY;
          (newX, newY) =
            (if newX > len line
             then (if dy = 0 \<and> newY + 1 < len (lines v) then (0, newY + 1)
                   else (len line, newY))
             else (newX, newY));
          (newX, newY) =
            (if newX < 0
             then (if newY > 0 then (len (lines v ! nat (newY - 1)), newY - 1)
                   else (0, newY))
             else (newX, newY))
      in (newX, newY))"

text \<open>Lines 202 to 207: the vertical offset.\<close>

definition scrollY :: "int \<Rightarrow> int \<Rightarrow> int \<Rightarrow> int" where
  "scrollY oy0 maxY newYOnScreen =
     (let oy1 = (if newYOnScreen > oy0 + maxY - 1 then newYOnScreen - maxY + 1 else oy0)
      in if newYOnScreen < oy1 then newYOnScreen else oy1)"

text \<open>Lines 210 to 225: the horizontal offset, when \<^verbatim>\<open>Wrap\<close> is off.\<close>

definition scrollX :: "int \<Rightarrow> int \<Rightarrow> int \<Rightarrow> int" where
  "scrollX ox0 maxX newXOnScreen =
     (let ox1 = (if newXOnScreen > ox0 + maxX - 1 then newXOnScreen - maxX + 1 else ox0);
          prevSize = (if maxX > 2 \<and> newXOnScreen - 2 \<ge> 0 then 2
                      else if maxX > 1 \<and> newXOnScreen - 1 \<ge> 0 then 1
                      else 0)
      in if newXOnScreen - prevSize < ox1 then newXOnScreen - prevSize else ox1)"

definition MoveCursor :: "collaborators \<Rightarrow> int \<Rightarrow> int \<Rightarrow> view \<Rightarrow> view" where
  "MoveCursor K dx dy v =
     (if len (lines v) = 0 then v\<lparr>cx := 0, cy := 0\<rparr>
      else
        let (newX, newY) = cursorTarget v dx dy;
            (maxX, maxY) = Size K v;
            (newXOnScreen, newYOnScreen, _) = linesPosOnScreen K v newX newY
        in v\<lparr>oy := scrollY (oy v) maxY newYOnScreen,
             ox := (if \<not> Wrap v then scrollX (ox v) maxX newXOnScreen else ox v),
             cx := newX, cy := newY\<rparr>)"

subsection \<open>Edit operations\<close>

definition EditWrite :: "collaborators \<Rightarrow> rune \<Rightarrow> view \<Rightarrow> view" where
  "EditWrite K ch v = MoveCursor K 1 0 (fst (writeRune (cx v) (cy v) ch v))"

definition EditDelete :: "collaborators \<Rightarrow> bool \<Rightarrow> view \<Rightarrow> view" where
  "EditDelete K back v =
     (let x = cx v; y = cy v in
      if y < 0 then v
      else if y \<ge> len (lines v) then MoveCursor K (- 1) 0 v
      else if back \<and> x \<le> 0 then
        (if y \<le> 0 then v
         else
           let previousLine = cy v - 1;
               v1 = MoveCursor K (- 1) 0 v
           in fst (mergeLines previousLine v1))
      else if back then
        (case deleteRune (cx v - 1) (cy v) v of
           (v1, None) \<Rightarrow> MoveCursor K (- 1) 0 v1
         | (v1, Some err) \<Rightarrow> v1)
      else if x = len (lines v ! nat y) then fst (mergeLines y v)
      else fst (deleteRune (cx v) (cy v) v))"

definition EditNewLine :: "view \<Rightarrow> view outcome" where
  "EditNewLine v =
     (case breakLine (cx v) (cy v) v of
        (v1, Panics) \<Rightarrow> Panics
      | (v1, Returns err) \<Rightarrow> Returns (v1\<lparr>ox := 0, cy := cy v1 + 1, cx := 0\<rparr>))"

text \<open>
  The loops of the three line operations. The first one ends in every state (see
  \<open>MoveCursor_left_decreases\<close>); the other two are partial functions, \<open>None\<close> being a
  loop that never ends.
\<close>

lemma wrapInt_fits: "fits i \<Longrightarrow> wrapInt i = i"
  by (simp add: fits_def wrapInt_def minInt_def maxInt_def)

lemma addInt_fits: "fits (a + b) \<Longrightarrow> addInt v a b = a + b"
  by (simp add: addInt_def wrapInt_fits)

lemma addInt_zero: "addInt v (cy v) 0 = cy v"
  by (simp add: addInt_def machineState_def wrapInt_fits)

lemma addInt_left: "0 < cx v \<Longrightarrow> addInt v (cx v) (- 1) = cx v - 1"
proof (cases "machineState v")
  case True
  assume "0 < cx v"
  with True have "fits (cx v + (- 1))"
    by (simp add: machineState_def fits_def minInt_def maxInt_def)
  then show ?thesis by (simp add: addInt_fits)
next
  case False
  then show ?thesis by (simp add: addInt_def)
qed

lemma addInt_pred: "minInt < cx v \<Longrightarrow> addInt v (cx v) (- 1) = cx v - 1"
proof (cases "machineState v")
  case True
  assume "minInt < cx v"
  with True have "fits (cx v + (- 1))"
    by (simp add: machineState_def fits_def)
  then show ?thesis by (simp add: addInt_fits)
next
  case False
  then show ?thesis by (simp add: addInt_def)
qed

lemmas addInt_eval = addInt_def machineState_def fits_def wrapInt_def minInt_def maxInt_def

lemma cursorTarget_left:
  assumes "0 < cx v" and "lines v \<noteq> []"
  shows "fst (cursorTarget v (- 1) 0) < cx v"
  using assms unfolding cursorTarget_def Let_def len_def addInt_zero addInt_left [OF assms(1)]
  by (simp split: if_splits prod.splits)

lemma MoveCursor_cx:
  "cx (MoveCursor K dx dy v) = (if lines v = [] then 0 else fst (cursorTarget v dx dy))"
  by (simp add: MoveCursor_def len_def case_prod_beta)

lemma MoveCursor_left_decreases:
  "0 < cx v \<Longrightarrow> cx (MoveCursor K (- 1) 0 v) < cx v"
  by (simp add: MoveCursor_cx cursorTarget_left)

function EditGotoToStartOfLine :: "collaborators \<Rightarrow> view \<Rightarrow> view" where
  "EditGotoToStartOfLine K v =
     (if fst (Cursor v) > 0 then EditGotoToStartOfLine K (MoveCursor K (- 1) 0 v) else v)"
  by pat_completeness auto
termination
  by (relation "measure (\<lambda>(K, v). nat (cx v))")
    (simp_all add: Cursor_def MoveCursor_left_decreases)

declare EditGotoToStartOfLine.simps [simp del]

partial_function (option) gotoEndLoop :: "collaborators \<Rightarrow> int \<Rightarrow> view \<Rightarrow> view option" where
  "gotoEndLoop K prevX v =
     (if prevX \<noteq> fst (Cursor v) then gotoEndLoop K (fst (Cursor v)) (MoveCursor K 1 0 v)
      else Some v)"

definition EditGotoToEndOfLine :: "collaborators \<Rightarrow> view \<Rightarrow> view option" where
  "EditGotoToEndOfLine K v =
     (let y = snd (Cursor v);
          v1 = SetCursor 0 (y + 1) v;
          (x, newY) = Cursor v1
      in if newY = y then gotoEndLoop K (- 1) v1
         else Some (MoveCursor K (- 1) 0 v1))"

partial_function (option) deleteToStartLoop :: "collaborators \<Rightarrow> view \<Rightarrow> view option" where
  "deleteToStartLoop K v =
     (if fst (Cursor v) > 0 then deleteToStartLoop K (EditDelete K True v) else Some v)"

definition EditDeleteToStartOfLine :: "collaborators \<Rightarrow> view \<Rightarrow> view option" where
  "EditDeleteToStartOfLine K v =
     (if fst (Cursor v) = 0 then Some (EditDelete K True v) else deleteToStartLoop K v)"

subsection \<open>The default editor\<close>

text \<open>
  Modelled from the spec: the type \<^verbatim>\<open>Key\<close> and its constants are declared outside
  edit.go; the spec lists the key codes as "space, backspace (2 variants), delete,
  insert, enter, tab, escape, arrow-up/down/left/right, or none". The constants are
  pairwise distinct, as the cases of one Go switch.
\<close>

datatype Key =
  KeySpace | KeyBackspace | KeyBackspace2 | KeyDelete | KeyInsert | KeyEnter
  | KeyArrowDown | KeyArrowUp | KeyArrowLeft | KeyArrowRight | KeyTab | KeyEsc | KeyNone

definition simpleEditor :: "collaborators \<Rightarrow> view \<Rightarrow> Key \<Rightarrow> rune \<Rightarrow> Modifier \<Rightarrow> view outcome" where
  "simpleEditor K v key ch md =
     (if ch \<noteq> 0 \<and> md = 0 then Returns (EditWrite K ch v)
      else case key of
        KeySpace \<Rightarrow> Returns (EditWrite K 32 v)
      | KeyBackspace \<Rightarrow> Returns (EditDelete K True v)
      | KeyBackspace2 \<Rightarrow> Returns (EditDelete K True v)
      | KeyDelete \<Rightarrow> Returns (EditDelete K False v)
      | KeyInsert \<Rightarrow> Returns (v\<lparr>Overwrite := \<not> Overwrite v\<rparr>)
      | KeyEnter \<Rightarrow> EditNewLine v
      | KeyArrowDown \<Rightarrow> Returns (MoveCursor K 0 1 v)
      | KeyArrowUp \<Rightarrow> Returns (MoveCursor K 0 (- 1) v)
      | KeyArrowLeft \<Rightarrow> Returns (MoveCursor K (- 1) 0 v)
      | KeyArrowRight \<Rightarrow> Returns (MoveCursor K 1 0 v)
      | KeyTab \<Rightarrow> Returns (EditWrite K 9 v)
      | KeyEsc \<Rightarrow> Returns v
      | KeyNone \<Rightarrow> Returns (EditWrite K ch v))"

subsection \<open>Sequences of exposed operations\<close>

datatype operation =
  OpEditWrite rune | OpEditDelete bool | OpEditNewLine | OpMoveCursor int int
  | OpEditGotoToStartOfLine | OpEditGotoToEndOfLine | OpEditDeleteToStartOfLine

text \<open>
  One call: \<open>None\<close> when the call never returns, \<open>Some Panics\<close> when it panics,
  \<open>Some (Returns v')\<close> when it returns in the state \<open>v'\<close>.
\<close>

definition perform :: "collaborators \<Rightarrow> operation \<Rightarrow> view \<Rightarrow> view outcome option" where
  "perform K p v =
     (case p of
        OpEditWrite ch \<Rightarrow> Some (Returns (EditWrite K ch v))
      | OpEditDelete back \<Rightarrow> Some (Returns (EditDelete K back v))
      | OpEditNewLine \<Rightarrow> Some (EditNewLine v)
      | OpMoveCursor dx dy \<Rightarrow> Some (Returns (MoveCursor K dx dy v))
      | OpEditGotoToStartOfLine \<Rightarrow> Some (Returns (EditGotoToStartOfLine K v))
      | OpEditGotoToEndOfLine \<Rightarrow> map_option Returns (EditGotoToEndOfLine K v)
      | OpEditDeleteToStartOfLine \<Rightarrow> map_option Returns (EditDeleteToStartOfLine K v))"

primrec run :: "collaborators \<Rightarrow> operation list \<Rightarrow> view \<Rightarrow> view outcome option" where
  "run K [] v = Some (Returns v)"
| "run K (p # ps) v =
     (case perform K p v of
        Some (Returns v1) \<Rightarrow> run K ps v1
      | Some Panics \<Rightarrow> Some Panics
      | None \<Rightarrow> None)"

subsection \<open>Sample states\<close>

text \<open>
  Concrete cells, views and collaborators, on which the theorems below are instantiated:
  cells without colours, a view over lines of runes with no scrolling, and a 80 by 24
  screen without wrapping.
\<close>

definition mkCell :: "rune \<Rightarrow> cell" where
  "mkCell c = \<lparr>fgColor = 0, bgColor = 0, chr = c\<rparr>"

definition mkView :: "rune list list \<Rightarrow> int \<Rightarrow> int \<Rightarrow> bool \<Rightarrow> view" where
  "mkView ls x y ow =
     \<lparr>lines = map (map mkCell) ls, cx = x, cy = y, ox = 0, oy = 0, Overwrite = ow,
      Wrap = False, tainted = False, FgColor = 0, BgColor = 0\<rparr>"

definition plainScreen :: collaborators where
  "plainScreen = \<lparr>Size = (\<lambda>v. (80, 24)), linesPosOnScreen = (\<lambda>v x y. (x, y, True))\<rparr>"

subsection \<open>Predicates of the claims\<close>

text \<open>
  The cursor is inside the buffer: its row is a line of the buffer and its column is a
  gap position of that line.
\<close>

definition inBounds :: "view \<Rightarrow> bool" where
  "inBounds v \<longleftrightarrow>
     0 \<le> cy v \<and> cy v < len (lines v) \<and> 0 \<le> cx v \<and> cx v \<le> len (lines v ! nat (cy v))"

text \<open>
  The cursor that the claim on the column resolution describes, in its own words, with
  the sums of the integers: the candidate row is the current row plus \<open>dy\<close>, clamped to
  the rows of the buffer; the candidate column is the current column plus \<open>dx\<close>.
\<close>

definition columnResolution :: "view \<Rightarrow> int \<Rightarrow> int \<Rightarrow> int \<times> int" where
  "columnResolution v dx dy =
     (let n = len (lines v);
          row = max 0 (min (n - 1) (cy v + dy));
          col = cx v + dx
      in if col > len (lines v ! nat row)
         then (if dy = 0 \<and> row + 1 < n then (0, row + 1) else (len (lines v ! nat row), row))
         else if col < 0
         then (if row > 0 then (len (lines v ! nat (row - 1)), row - 1) else (0, row))
         else (col, row))"

text \<open>
  The screen position that \<^verbatim>\<open>MoveCursor\<close> computed for the new cursor (in the state
  \<open>v\<close> of the call) lies in the window of the new offsets (of the state \<open>v'\<close> after the
  call), on the horizontal and on the vertical axis.
\<close>

definition visibleX :: "collaborators \<Rightarrow> view \<Rightarrow> view \<Rightarrow> bool" where
  "visibleX K v v' =
     (let (maxX, maxY) = Size K v;
          (newXOnScreen, newYOnScreen, ok) = linesPosOnScreen K v (cx v') (cy v')
      in ox v' \<le> newXOnScreen \<and> newXOnScreen \<le> ox v' + maxX - 1)"

definition visibleY :: "collaborators \<Rightarrow> view \<Rightarrow> view \<Rightarrow> bool" where
  "visibleY K v v' =
     (let (maxX, maxY) = Size K v;
          (newXOnScreen, newYOnScreen, ok) = linesPosOnScreen K v (cx v') (cy v')
      in oy v' \<le> newYOnScreen \<and> newYOnScreen \<le> oy v' + maxY - 1)"

text \<open>
  The bounds of the cursor: its row is below \<open>max 1 lineCount\<close> and its column is at
  most the length of its line, the line being empty when the buffer has no line.
\<close>

definition boundsInvariant :: "view \<Rightarrow> bool" where
  "boundsInvariant v \<longleftrightarrow>
     0 \<le> cy v \<and> cy v < max 1 (len (lines v)) \<and> 0 \<le> cx v \<and>
     cx v \<le> len (if lines v = [] then [] else lines v ! nat (cy v))"

text \<open>
  The bounds that hold in every state the operations reach: the cursor is inside the
  buffer, or the buffer has no line and the cursor is at column 0 of some row.
\<close>

definition reachBounds :: "view \<Rightarrow> bool" where
  "reachBounds v \<longleftrightarrow> (if lines v = [] then cx v = 0 \<and> 0 \<le> cy v else inBounds v)"

text \<open>The state of a new view: no line, cursor and offsets at (0, 0).\<close>

definition initialView :: "view \<Rightarrow> bool" where
  "initialView v \<longleftrightarrow> lines v = [] \<and> cx v = 0 \<and> cy v = 0 \<and> ox v = 0 \<and> oy v = 0"

section \<open>Properties\<close>

subsection \<open>The edit primitives\<close>

lemma len_nonneg [simp]: "0 \<le> len xs" by (simp add: len_def)
lemma len_eq_0 [simp]: "len xs = 0 \<longleftrightarrow> xs = []" by (simp add: len_def)

lemma go_copy_same_length: "length dst = length src \<Longrightarrow> go_copy dst src = src"
  by (simp add: go_copy_def)

lemma breakLine_fresh:
  fixes ls :: "'a list list"
  assumes y: "y < length ls" and n0: "length n0 = Suc (length ls)"
  shows "(let n2 = (n0[y := left])[Suc y := right];
              n3 = go_copy n2 (take y ls)
          in take (Suc (Suc y)) n3 @ go_copy (drop (Suc (Suc y)) n3) (drop (Suc y) ls))
         = take y ls @ [left, right] @ drop (Suc y) ls"
proof -
  let ?n2 = "(n0[y := left])[Suc y := right]"
  let ?n3 = "go_copy ?n2 (take y ls)"
  have n3: "?n3 = take y ls @ drop y ?n2"
    using y n0 by (simp add: go_copy_def min_def)
  have d: "drop y ?n2 = left # right # drop (Suc (Suc y)) n0"
  proof -
    have "drop y n0 = n0 ! y # n0 ! Suc y # drop (Suc (Suc y)) n0"
      using y n0 by (simp add: Cons_nth_drop_Suc)
    moreover have "drop y ?n2 = ((drop y n0)[0 := left])[Suc 0 := right]"
      by (simp add: drop_update_swap)
    ultimately show ?thesis by simp
  qed
  have t: "take (Suc (Suc y)) ?n3 = take y ls @ [left, right]"
    using y by (simp add: n3 d)
  have r: "drop (Suc (Suc y)) ?n3 = drop (Suc (Suc y)) n0"
    using y by (simp add: n3 d)
  have "go_copy (drop (Suc (Suc y)) ?n3) (drop (Suc y) ls) = drop (Suc y) ls"
    unfolding r by (rule go_copy_same_length) (use y n0 in simp)
  with t show ?thesis by (simp add: Let_def)
qed


lemma nat_succ: "0 \<le> y \<Longrightarrow> nat (y + 1) = Suc (nat y)" "0 \<le> y \<Longrightarrow> nat (y + 2) = Suc (Suc (nat y))"
  by simp_all

lemma breakLine_returns:
  assumes "0 \<le> y" "y < len (lines v)" "0 \<le> x"
  shows "breakLine x y v =
           (v\<lparr>tainted := True,
              lines := take (nat y) (lines v)
                       @ [take (nat x) (lines v ! nat y), drop (nat x) (lines v ! nat y)]
                       @ drop (Suc (nat y)) (lines v)\<rparr>, Returns None)"
proof -
  have y: "nat y < length (lines v)" using assms by (simp add: len_def)
  have n: "nat (len (lines v) + 1) = Suc (length (lines v))" by (simp add: len_def)
  note fresh = breakLine_fresh [OF y, of "replicate (Suc (length (lines v))) []", simplified Let_def]
  show ?thesis
  proof (cases "x < len (lines v ! nat y)")
    case True
    with assms show ?thesis
      unfolding breakLine_def
      by (simp add: n nat_succ Let_def fresh del: replicate_Suc replicate.simps)
  next
    case False
    then have "take (nat x) (lines v ! nat y) = lines v ! nat y"
      and "drop (nat x) (lines v ! nat y) = []"
      using assms by (simp_all add: len_def)
    with False assms show ?thesis
      unfolding breakLine_def
      by (simp add: n nat_succ Let_def fresh del: replicate_Suc replicate.simps)
  qed
qed

lemma breakLine_invalid:
  "y < 0 \<or> len (lines v) \<le> y \<Longrightarrow> breakLine x y v = (v\<lparr>tainted := True\<rparr>, Returns (Some InvalidPoint))"
  by (auto simp: breakLine_def Let_def)

lemma breakLine_panics:
  "0 \<le> y \<Longrightarrow> y < len (lines v) \<Longrightarrow> x < 0 \<Longrightarrow> breakLine x y v = (v\<lparr>tainted := True\<rparr>, Panics)"
  by (simp add: breakLine_def Let_def len_def)

lemma mergeLines_merges:
  assumes "0 \<le> y" "y + 1 < len (lines v)"
  shows "mergeLines y v =
           (v\<lparr>tainted := True,
              lines := take (nat y) (lines v)
                       @ [lines v ! nat y @ lines v ! Suc (nat y)]
                       @ drop (Suc (Suc (nat y))) (lines v)\<rparr>, None)"
proof -
  have y: "Suc (nat y) < length (lines v)" using assms by (simp add: len_def)
  have "take (Suc (nat y)) ((lines v)[nat y := a]) = take (nat y) (lines v) @ [a]" for a
    using y by (simp add: take_Suc_conv_app_nth)
  then show ?thesis
    using assms by (simp add: mergeLines_def nat_succ Let_def)
qed

lemma mergeLines_last:
  "0 \<le> y \<Longrightarrow> y + 1 = len (lines v) \<Longrightarrow> mergeLines y v = (v\<lparr>tainted := True\<rparr>, None)"
  by (simp add: mergeLines_def Let_def)

lemma mergeLines_invalid:
  "y < 0 \<or> len (lines v) \<le> y \<Longrightarrow> mergeLines y v = (v\<lparr>tainted := True\<rparr>, Some InvalidPoint)"
  by (auto simp: mergeLines_def Let_def)

lemma deleteRune_deletes:
  assumes "0 \<le> y" "y < len (lines v)" "0 \<le> x" "x < len (lines v ! nat y)"
  shows "deleteRune x y v =
           (v\<lparr>tainted := True,
              lines := (lines v)[nat y := take (nat x) (lines v ! nat y)
                                          @ drop (Suc (nat x)) (lines v ! nat y)]\<rparr>, None)"
  using assms by (simp add: deleteRune_def nat_succ Let_def)

lemma deleteRune_invalid:
  "x < 0 \<or> y < 0 \<or> len (lines v) \<le> y \<or> len (lines v ! nat y) \<le> x \<Longrightarrow>
   deleteRune x y v = (v\<lparr>tainted := True\<rparr>, Some InvalidPoint)"
  by (auto simp: deleteRune_def Let_def)


lemma write_line_insert:
  assumes "i < length l"
  shows "(take (Suc i) (l @ [z]) @ go_copy (drop (Suc i) (l @ [z])) (drop i (l @ [z])))[i := c]
         = take i l @ c # drop i l"
proof -
  have "go_copy (drop (Suc i) (l @ [z])) (drop i (l @ [z])) = drop i l"
    using assms by (simp add: go_copy_def min_def)
  moreover have "(take (Suc i) l @ drop i l)[i := c] = take i l @ c # drop i l"
    using assms by (simp add: take_Suc_conv_app_nth list_update_append)
  ultimately show ?thesis using assms by simp
qed

lemma write_line_pad:
  assumes "length l \<le> i" and "l1 = l @ replicate (Suc i - length l) z"
  shows "(take (Suc i) l1 @ go_copy (drop (Suc i) l1) (drop i l1))[i := c]
         = l @ replicate (i - length l) z @ [c]"
proof -
  have len1: "length l1 = Suc i" using assms by simp
  have "l1 = (l @ replicate (i - length l) z) @ [z]"
    using assms by (simp add: Suc_diff_le replicate_append_same)
  moreover have "length (l @ replicate (i - length l) z) = i" using assms by simp
  ultimately have "l1[i := c] = (l @ replicate (i - length l) z) @ [c]"
    by (metis list_update_length append_Nil2 length_append append.assoc append_Cons)
  then show ?thesis using len1 by (simp add: go_copy_def)
qed

lemma write_line_last:
  "Suc i = length l \<Longrightarrow> take (Suc i) l @ go_copy (drop (Suc i) l) (drop i l) = l"
  by (simp add: go_copy_def)


lemma write_line:
  fixes l :: "'a list" and x :: int
  assumes "0 \<le> x"
  shows "(let lineLen = len l;
               toInsert = (if x \<ge> lineLen then replicate (nat (x - lineLen + 1)) z
                           else if \<not> ow then replicate 1 z
                           else []);
               l1 = l @ toInsert;
               l2 = (if \<not> ow \<or> (ow \<and> x + 1 \<ge> lineLen)
                     then take (nat (x + 1)) l1 @ go_copy (drop (nat (x + 1)) l1) (drop (nat x) l1)
                     else l1)
           in l2[nat x := c])
          = (if ow \<and> nat x < length l then l[nat x := c]
             else take (nat x) l @ replicate (nat x - length l) z @ [c] @ drop (nat x) l)"
proof -
  have sx: "nat (x + 1) = Suc (nat x)" using assms by simp
  consider (pad) "length l \<le> nat x"
    | (ins) "nat x < length l" "\<not> ow"
    | (last) "Suc (nat x) = length l" "ow"
    | (inner) "Suc (nat x) < length l" "ow"
    by linarith
  then show ?thesis
  proof cases
    case pad
    then have ge: "x \<ge> len l" using assms by (simp add: len_def)
    have n: "nat (x - len l + 1) = Suc (nat x) - length l"
      using ge by (simp add: len_def nat_diff_distrib)
    have cond: "\<not> ow \<or> (ow \<and> x + 1 \<ge> len l)" using ge by auto
    have rhs: "\<not> (ow \<and> nat x < length l)" "take (nat x) l = l" "drop (nat x) l = []"
      using pad by simp_all
    show ?thesis unfolding Let_def
      by (simp only: ge cond n sx rhs if_True if_False write_line_pad [OF pad refl] append_Nil2)
  next
    case ins
    then have lt: "\<not> x \<ge> len l" using assms by (simp add: len_def)
    have rhs: "\<not> (ow \<and> nat x < length l)" "nat x - length l = 0"
      using ins by simp_all
    have one: "replicate 1 z = [z]" by simp
    show ?thesis unfolding Let_def
      by (simp only: lt ins sx rhs one if_True if_False not_False_eq_True simp_thms
          write_line_insert [OF ins(1)] replicate_0 append_Nil append_Cons)
  next
    case last
    then have lt: "\<not> x \<ge> len l" "x + 1 \<ge> len l" using assms by (simp_all add: len_def)
    have rhs: "ow \<and> nat x < length l" using last by simp
    show ?thesis unfolding Let_def
      by (simp only: lt last(2) sx rhs if_True if_False simp_thms append_Nil2
          write_line_last [OF last(1)])
  next
    case inner
    then have lt: "\<not> x \<ge> len l" "\<not> x + 1 \<ge> len l" using assms by (simp_all add: len_def)
    have rhs: "ow \<and> nat x < length l" using inner by simp
    show ?thesis unfolding Let_def
      by (simp only: lt inner(2) rhs if_True if_False simp_thms append_Nil2)
  qed
qed

lemma writeRune_grow:
  fixes ls :: "'a list list"
  assumes "0 \<le> y"
  shows "(if y \<ge> len ls then ls @ replicate (nat (y - len ls + 1)) [] else ls)
         = ls @ replicate (Suc (nat y) - length ls) []"
proof (cases "y \<ge> len ls")
  case True
  then have "nat (y - len ls + 1) = Suc (nat y) - length ls"
    by (simp add: len_def nat_diff_distrib)
  with True show ?thesis by (simp only: if_True)
next
  case False
  then have "Suc (nat y) - length ls = 0" using assms by (simp add: len_def)
  with False show ?thesis by simp
qed

lemma writeRune_writes:
  fixes v :: view and ch :: rune and x y :: int
  assumes "0 \<le> x" "0 \<le> y"
  shows "writeRune x y ch v =
           (let ls = lines v @ replicate (Suc (nat y) - length (lines v)) [];
                c = \<lparr>fgColor = FgColor v, bgColor = BgColor v, chr = ch\<rparr>
            in (v\<lparr>tainted := True,
              lines := ls[nat y :=
                (if Overwrite v \<and> nat x < length (ls ! nat y) then (ls ! nat y)[nat x := c]
                 else take (nat x) (ls ! nat y)
                      @ replicate (nat x - length (ls ! nat y)) zero_cell
                      @ [c] @ drop (nat x) (ls ! nat y))]\<rparr>, None))"
proof -
  have neg: "\<not> (x < 0 \<or> y < 0)" using assms by simp
  show ?thesis
    unfolding writeRune_def Let_def
    apply (simp only: neg if_False view.simps)
    apply (simp only: writeRune_grow [OF assms(2)])
    apply (simp only: write_line [OF assms(1), unfolded Let_def])
    apply simp
    done
qed


subsection \<open>Writing and merging\<close>

text \<open>
  C5. \<^verbatim>\<open>writeRune(x, y, ch)\<close> returns the error exactly when \<open>x < 0\<close> or \<open>y < 0\<close>.
  Otherwise it returns no error, the buffer has \<open>max lineCount (y + 1)\<close> lines, the
  lines other than \<open>y\<close> are as before (empty when new), and line \<open>y\<close> is: the old line
  with the cell at \<open>x\<close> replaced, when Overwrite is on and \<open>x\<close> is inside the line; else
  the old line up to \<open>x\<close>, padded with zero cells to length \<open>x\<close>, the new cell, and the
  old line from \<open>x\<close> on.
\<close>

theorem writeRune_spec:
  "(snd (writeRune x y ch v) = Some InvalidPoint \<longleftrightarrow> x < 0 \<or> y < 0) \<and>
   (0 \<le> x \<and> 0 \<le> y \<longrightarrow>
      (let v' = fst (writeRune x y ch v);
           c = \<lparr>fgColor = FgColor v, bgColor = BgColor v, chr = ch\<rparr>;
           old = (if nat y < length (lines v) then lines v ! nat y else [])
       in snd (writeRune x y ch v) = None \<and>
          length (lines v') = max (length (lines v)) (Suc (nat y)) \<and>
          (\<forall>i < length (lines v'). i \<noteq> nat y \<longrightarrow>
             lines v' ! i = (if i < length (lines v) then lines v ! i else [])) \<and>
          lines v' ! nat y =
            (if Overwrite v \<and> x < len old then old[nat x := c]
             else take (nat x) old @ replicate (nat x - length old) zero_cell
                  @ [c] @ drop (nat x) old)))"
proof (intro conjI impI)
  show "snd (writeRune x y ch v) = Some InvalidPoint \<longleftrightarrow> x < 0 \<or> y < 0"
    by (simp add: writeRune_def Let_def)
next
  assume xy: "0 \<le> x \<and> 0 \<le> y"
  define ls where "ls = lines v @ replicate (Suc (nat y) - length (lines v)) []"
  define c where "c = \<lparr>fgColor = FgColor v, bgColor = BgColor v, chr = ch\<rparr>"
  define old where "old = (if nat y < length (lines v) then lines v ! nat y else [])"
  define new where "new = (if Overwrite v \<and> x < len old then old[nat x := c]
     else take (nat x) old @ replicate (nat x - length old) zero_cell @ [c] @ drop (nat x) old)"
  have old: "ls ! nat y = old"
    by (simp add: ls_def old_def nth_append)
  have len: "length ls = max (length (lines v)) (Suc (nat y))"
    by (simp add: ls_def)
  have other: "ls ! i = (if i < length (lines v) then lines v ! i else [])"
    if "i < length ls" for i
    using that by (simp add: ls_def nth_append)
  have y: "nat y < length ls" by (simp add: ls_def)
  have xl: "nat x < length old \<longleftrightarrow> x < len old"
    using xy by (auto simp: len_def)
  note W0 = writeRune_writes [OF xy [THEN conjunct1] xy [THEN conjunct2], of ch v,
      unfolded Let_def, folded ls_def c_def]
  have "writeRune x y ch v = (v\<lparr>tainted := True, lines := ls[nat y := new]\<rparr>, None)"
    unfolding new_def using W0 by (simp only: old xl)
  then have L: "lines (fst (writeRune x y ch v)) = ls[nat y := new]"
    and S: "snd (writeRune x y ch v) = None"
    by simp_all
  have "length (ls[nat y := new]) = max (length (lines v)) (Suc (nat y))"
    using len by simp
  moreover have "\<forall>i < length (ls[nat y := new]). i \<noteq> nat y \<longrightarrow>
      ls[nat y := new] ! i = (if i < length (lines v) then lines v ! i else [])"
    using other by simp
  moreover have "ls[nat y := new] ! nat y = new"
    using y by simp
  ultimately show "let v' = fst (writeRune x y ch v);
            c = \<lparr>fgColor = FgColor v, bgColor = BgColor v, chr = ch\<rparr>;
            old = (if nat y < length (lines v) then lines v ! nat y else [])
        in snd (writeRune x y ch v) = None \<and>
           length (lines v') = max (length (lines v)) (Suc (nat y)) \<and>
           (\<forall>i < length (lines v'). i \<noteq> nat y \<longrightarrow>
              lines v' ! i = (if i < length (lines v) then lines v ! i else [])) \<and>
           lines v' ! nat y =
             (if Overwrite v \<and> x < len old then old[nat x := c]
              else take (nat x) old @ replicate (nat x - length old) zero_cell
                   @ [c] @ drop (nat x) old)"
    unfolding Let_def L S new_def old_def c_def by blast
qed


theorem writeRune_spec_witness:
  "snd (writeRune 1 0 88 (mkView [[97, 98, 99]] 1 0 False)) = None \<and>
   length (lines (fst (writeRune 1 0 88 (mkView [[97, 98, 99]] 1 0 False)))) = 1 \<and>
   lines (fst (writeRune 1 0 88 (mkView [[97, 98, 99]] 1 0 False))) ! 0
     = map mkCell [97, 88, 98, 99] \<and>
   lines (fst (writeRune 1 0 88 (mkView [[97, 98, 99]] 1 0 True))) ! 0
     = map mkCell [97, 88, 99] \<and>
   lines (fst (writeRune 2 1 88 (mkView [[97, 98, 99]] 1 0 True))) ! 1
     = [zero_cell, zero_cell, mkCell 88]"
  using writeRune_spec [of 1 0 88 "mkView [[97, 98, 99]] 1 0 False"]
    writeRune_spec [of 1 0 88 "mkView [[97, 98, 99]] 1 0 True"]
    writeRune_spec [of 2 1 88 "mkView [[97, 98, 99]] 1 0 True"]
  by (simp add: mkView_def mkCell_def Let_def len_def numeral_2_eq_2)

text \<open>
  C6. \<^verbatim>\<open>mergeLines(y)\<close> returns the error exactly when \<open>y < 0\<close> or \<open>y \<ge> lineCount\<close>.
  On the last line it returns no error and the lines are unchanged; when line \<open>y + 1\<close>
  exists, line \<open>y\<close> becomes line \<open>y\<close> followed by line \<open>y + 1\<close>, line \<open>y + 1\<close> is
  removed, and there is one line less.
\<close>

theorem mergeLines_spec:
  "(snd (mergeLines y v) = Some InvalidPoint \<longleftrightarrow> y < 0 \<or> y \<ge> len (lines v)) \<and>
   (0 \<le> y \<and> y = len (lines v) - 1 \<longrightarrow>
      snd (mergeLines y v) = None \<and> lines (fst (mergeLines y v)) = lines v) \<and>
   (0 \<le> y \<and> y + 1 < len (lines v) \<longrightarrow>
      snd (mergeLines y v) = None \<and>
      lines (fst (mergeLines y v))
        = take (nat y) (lines v) @ [lines v ! nat y @ lines v ! (nat y + 1)]
          @ drop (nat y + 2) (lines v) \<and>
      len (lines (fst (mergeLines y v))) = len (lines v) - 1)"
proof (intro conjI impI)
  show "snd (mergeLines y v) = Some InvalidPoint \<longleftrightarrow> y < 0 \<or> y \<ge> len (lines v)"
    by (simp add: mergeLines_def Let_def)
next
  assume "0 \<le> y \<and> y = len (lines v) - 1"
  then have "mergeLines y v = (v\<lparr>tainted := True\<rparr>, None)"
    by (intro mergeLines_last) simp_all
  then show "snd (mergeLines y v) = None" "lines (fst (mergeLines y v)) = lines v"
    by simp_all
next
  assume a: "0 \<le> y \<and> y + 1 < len (lines v)"
  then have m: "mergeLines y v =
      (v\<lparr>tainted := True,
         lines := take (nat y) (lines v) @ [lines v ! nat y @ lines v ! Suc (nat y)]
                  @ drop (Suc (Suc (nat y))) (lines v)\<rparr>, None)"
    by (intro mergeLines_merges) simp_all
  show "snd (mergeLines y v) = None" by (simp add: m)
  show "lines (fst (mergeLines y v))
        = take (nat y) (lines v) @ [lines v ! nat y @ lines v ! (nat y + 1)]
          @ drop (nat y + 2) (lines v)"
    by (simp add: m)
  show "len (lines (fst (mergeLines y v))) = len (lines v) - 1"
    using a by (simp add: m len_def min_def) linarith
qed

theorem mergeLines_spec_witness:
  "snd (mergeLines 2 (mkView [[97], [98]] 0 0 False)) = Some InvalidPoint \<and>
   snd (mergeLines 1 (mkView [[97], [98]] 0 0 False)) = None \<and>
   lines (fst (mergeLines 1 (mkView [[97], [98]] 0 0 False))) = map (map mkCell) [[97], [98]] \<and>
   lines (fst (mergeLines 0 (mkView [[97], [98]] 0 0 False))) = map (map mkCell) [[97, 98]]"
  using mergeLines_spec [of 2 "mkView [[97], [98]] 0 0 False"]
    mergeLines_spec [of 1 "mkView [[97], [98]] 0 0 False"]
    mergeLines_spec [of 0 "mkView [[97], [98]] 0 0 False"]
  by (simp add: mkView_def len_def)

subsection \<open>The dirty flag\<close>

lemma writeRune_invalid:
  "x < 0 \<or> y < 0 \<Longrightarrow> writeRune x y ch v = (v\<lparr>tainted := True\<rparr>, Some InvalidPoint)"
  by (simp add: writeRune_def Let_def)

lemma writeRune_error:
  "snd (writeRune x y ch v) = (if x < 0 \<or> y < 0 then Some InvalidPoint else None)"
  by (simp add: writeRune_def Let_def)

lemma deleteRune_error:
  "snd (deleteRune x y v) =
     (if x < 0 \<or> y < 0 \<or> len (lines v) \<le> y \<or> len (lines v ! nat y) \<le> x
      then Some InvalidPoint else None)"
  by (simp add: deleteRune_def Let_def)

lemma mergeLines_error:
  "snd (mergeLines y v) = (if y < 0 \<or> len (lines v) \<le> y then Some InvalidPoint else None)"
  by (simp add: mergeLines_def Let_def)

lemma breakLine_error:
  "snd (breakLine x y v) =
     (if y < 0 \<or> len (lines v) \<le> y then Returns (Some InvalidPoint)
      else if x < 0 then Panics else Returns None)"
  by (simp add: breakLine_def Let_def case_prod_beta len_def)

text \<open>
  C10. Each of \<^verbatim>\<open>writeRune\<close>, \<^verbatim>\<open>deleteRune\<close>, \<^verbatim>\<open>mergeLines\<close> and \<^verbatim>\<open>breakLine\<close>
  sets the dirty flag in every call; a call that returns the error changes nothing but
  the flag, so the lines are unchanged.
\<close>

theorem primitives_set_tainted:
  "tainted (fst (writeRune x y ch v)) \<and>
   tainted (fst (deleteRune x y v)) \<and>
   tainted (fst (mergeLines y v)) \<and>
   tainted (fst (breakLine x y v)) \<and>
   (snd (writeRune x y ch v) = Some InvalidPoint \<longrightarrow>
      fst (writeRune x y ch v) = v\<lparr>tainted := True\<rparr>) \<and>
   (snd (deleteRune x y v) = Some InvalidPoint \<longrightarrow>
      fst (deleteRune x y v) = v\<lparr>tainted := True\<rparr>) \<and>
   (snd (mergeLines y v) = Some InvalidPoint \<longrightarrow>
      fst (mergeLines y v) = v\<lparr>tainted := True\<rparr>) \<and>
   (snd (breakLine x y v) = Returns (Some InvalidPoint) \<longrightarrow>
      fst (breakLine x y v) = v\<lparr>tainted := True\<rparr>)"
proof (intro conjI impI)
  show "tainted (fst (writeRune x y ch v))"
    by (simp add: writeRune_def Let_def)
  show "tainted (fst (deleteRune x y v))"
    by (simp add: deleteRune_def Let_def)
  show "tainted (fst (mergeLines y v))"
    by (simp add: mergeLines_def Let_def)
  show "tainted (fst (breakLine x y v))"
    by (simp add: breakLine_def Let_def case_prod_beta)
next
  assume "snd (writeRune x y ch v) = Some InvalidPoint"
  then have "x < 0 \<or> y < 0"
    by (simp add: writeRune_error split: if_splits)
  then show "fst (writeRune x y ch v) = v\<lparr>tainted := True\<rparr>"
    by (simp add: writeRune_invalid)
next
  assume "snd (deleteRune x y v) = Some InvalidPoint"
  then have "x < 0 \<or> y < 0 \<or> len (lines v) \<le> y \<or> len (lines v ! nat y) \<le> x"
    by (simp add: deleteRune_error split: if_splits)
  then show "fst (deleteRune x y v) = v\<lparr>tainted := True\<rparr>"
    by (simp add: deleteRune_invalid)
next
  assume "snd (mergeLines y v) = Some InvalidPoint"
  then have "y < 0 \<or> len (lines v) \<le> y"
    by (simp add: mergeLines_error split: if_splits)
  then show "fst (mergeLines y v) = v\<lparr>tainted := True\<rparr>"
    by (simp add: mergeLines_invalid)
next
  assume "snd (breakLine x y v) = Returns (Some InvalidPoint)"
  then have "y < 0 \<or> len (lines v) \<le> y"
    by (simp add: breakLine_error split: if_splits)
  then show "fst (breakLine x y v) = v\<lparr>tainted := True\<rparr>"
    by (simp add: breakLine_invalid)
qed

theorem primitives_set_tainted_witness:
  "\<not> tainted (mkView [[97]] 0 0 False) \<and>
   snd (writeRune (- 1) 5 88 (mkView [[97]] 0 0 False)) = Some InvalidPoint \<and>
   snd (deleteRune 1 0 (mkView [[97]] 0 0 False)) = Some InvalidPoint \<and>
   snd (mergeLines 1 (mkView [[97]] 0 0 False)) = Some InvalidPoint \<and>
   snd (breakLine 0 1 (mkView [[97]] 0 0 False)) = Returns (Some InvalidPoint) \<and>
   fst (writeRune (- 1) 5 88 (mkView [[97]] 0 0 False)) = (mkView [[97]] 0 0 False)\<lparr>tainted := True\<rparr> \<and>
   fst (deleteRune 1 0 (mkView [[97]] 0 0 False)) = (mkView [[97]] 0 0 False)\<lparr>tainted := True\<rparr> \<and>
   fst (mergeLines 1 (mkView [[97]] 0 0 False)) = (mkView [[97]] 0 0 False)\<lparr>tainted := True\<rparr> \<and>
   fst (breakLine 0 1 (mkView [[97]] 0 0 False)) = (mkView [[97]] 0 0 False)\<lparr>tainted := True\<rparr>"
proof -
  have e: "snd (writeRune (- 1) 5 88 (mkView [[97]] 0 0 False)) = Some InvalidPoint"
    "snd (deleteRune 1 0 (mkView [[97]] 0 0 False)) = Some InvalidPoint"
    "snd (mergeLines 1 (mkView [[97]] 0 0 False)) = Some InvalidPoint"
    "snd (breakLine 0 1 (mkView [[97]] 0 0 False)) = Returns (Some InvalidPoint)"
    by (simp_all add: writeRune_def deleteRune_def mergeLines_def breakLine_def mkView_def
        Let_def len_def)
  have "\<not> tainted (mkView [[97]] 0 0 False)" by (simp add: mkView_def)
  with e primitives_set_tainted [of "- 1" 5 88 "mkView [[97]] 0 0 False"]
    primitives_set_tainted [of 1 0 88 "mkView [[97]] 0 0 False"]
    primitives_set_tainted [of 0 1 88 "mkView [[97]] 0 0 False"]
  show ?thesis by simp
qed


subsection \<open>Moving the cursor\<close>

lemma MoveCursor_cy:
  "cy (MoveCursor K dx dy v) = (if lines v = [] then 0 else snd (cursorTarget v dx dy))"
  by (simp add: MoveCursor_def case_prod_beta)

lemma MoveCursor_frame [simp]:
  "lines (MoveCursor K dx dy v) = lines v"
  "Overwrite (MoveCursor K dx dy v) = Overwrite v"
  "Wrap (MoveCursor K dx dy v) = Wrap v"
  "tainted (MoveCursor K dx dy v) = tainted v"
  "FgColor (MoveCursor K dx dy v) = FgColor v"
  "BgColor (MoveCursor K dx dy v) = BgColor v"
  by (simp_all add: MoveCursor_def case_prod_beta)

lemma MoveCursor_oy:
  "oy (MoveCursor K dx dy v) =
     (if lines v = [] then oy v
      else scrollY (oy v) (snd (Size K v))
             (fst (snd (linesPosOnScreen K v (fst (cursorTarget v dx dy))
                                             (snd (cursorTarget v dx dy))))))"
  by (simp add: MoveCursor_def case_prod_beta)

lemma MoveCursor_ox:
  "ox (MoveCursor K dx dy v) =
     (if lines v = [] \<or> Wrap v then ox v
      else scrollX (ox v) (fst (Size K v))
             (fst (linesPosOnScreen K v (fst (cursorTarget v dx dy))
                                        (snd (cursorTarget v dx dy)))))"
  by (simp add: MoveCursor_def case_prod_beta)

lemma cursorTarget_cases:
  assumes "lines v \<noteq> []"
  shows "cursorTarget v dx dy =
     (let n = len (lines v);
          row = max 0 (min (n - 1) (addInt v (cy v) dy));
          col = addInt v (cx v) dx
      in if col > len (lines v ! nat row)
         then (if dy = 0 \<and> row + 1 < n then (0, row + 1) else (len (lines v ! nat row), row))
         else if col < 0
         then (if row > 0 then (len (lines v ! nat (row - 1)), row - 1) else (0, row))
         else (col, row))"
proof -
  define X where "X = addInt v (cx v) dx"
  define Y where "Y = addInt v (cy v) dy"
  define R where "R = max 0 (min (len (lines v) - 1) Y)"
  have n: "0 < len (lines v)" using assms by (simp add: len_def)
  have row: "(if (if Y \<ge> len (lines v) then len (lines v) - 1 else Y) < 0
              then 0
              else (if Y \<ge> len (lines v) then len (lines v) - 1 else Y)) = R"
    using n by (simp add: R_def max_def min_def)
  have "cursorTarget v dx dy =
     (if X > len (lines v ! nat R)
      then (if dy = 0 \<and> R + 1 < len (lines v) then (0, R + 1) else (len (lines v ! nat R), R))
      else if X < 0
      then (if R > 0 then (len (lines v ! nat (R - 1)), R - 1) else (0, R))
      else (X, R))"
    unfolding cursorTarget_def Let_def X_def [symmetric] Y_def [symmetric] row
    by (simp add: len_def)
  from this [unfolded R_def Y_def X_def] show ?thesis
    unfolding Let_def .
qed

lemma addInt_right:
  assumes "0 \<le> cy v" "cy v < len (lines v)" "0 \<le> cx v" "cx v \<le> len (lines v ! nat (cy v))"
  shows "addInt v (cx v) 1 = cx v + 1"
proof (cases "machineState v")
  case True
  have "lines v ! nat (cy v) \<in> set (lines v)"
    using assms(1,2) by (simp add: len_def)
  with True have "len (lines v ! nat (cy v)) < maxInt"
    by (simp add: machineState_def list_all_iff)
  with assms True have "fits (cx v + 1)"
    by (simp add: fits_def minInt_def maxInt_def)
  then show ?thesis by (simp add: addInt_fits)
next
  case False
  then show ?thesis by (simp add: addInt_def)
qed

lemma scrollY_visible:
  "1 \<le> maxY \<Longrightarrow> scrollY o0 maxY sy \<le> sy \<and> sy \<le> scrollY o0 maxY sy + maxY - 1"
  by (simp add: scrollY_def Let_def)

lemma scrollX_visible:
  "1 \<le> maxX \<Longrightarrow> scrollX o0 maxX sx \<le> sx \<and> sx \<le> scrollX o0 maxX sx + maxX - 1"
  by (simp add: scrollX_def Let_def)


text \<open>
  C4, as stated, fails when a sum of line 158 leaves the range of the machine integers:
  on the lines "ab" and "c" with the cursor at (1, 0), \<^verbatim>\<open>MoveCursor(maxInt, 0)\<close> wraps
  the column to \<open>minInt\<close>, which is negative on the first row, so the cursor lands at
  (0, 0); the claim rolls over to (0, 1).
\<close>

theorem MoveCursor_column_resolution_counterexample:
  "cx (MoveCursor plainScreen 9223372036854775807 0 (mkView [[97, 98], [99]] 1 0 False)) = 0 \<and>
   cy (MoveCursor plainScreen 9223372036854775807 0 (mkView [[97, 98], [99]] 1 0 False)) = 0 \<and>
   columnResolution (mkView [[97, 98], [99]] 1 0 False) 9223372036854775807 0 = (0, 1)"
  by (simp add: MoveCursor_cx MoveCursor_cy cursorTarget_def columnResolution_def addInt_eval
      mkView_def len_def Let_def)

text \<open>
  C4, amended. With at least one line, and when the current column plus \<open>dx\<close> and the
  current row plus \<open>dy\<close> are machine integers: the candidate row is the current row plus
  \<open>dy\<close>, clamped to the rows of the buffer, and the candidate column is the current
  column plus \<open>dx\<close>. A column beyond the end of the candidate row rolls over to column 0
  of the next row when \<open>dy = 0\<close> and a next row exists, and is the length of the row
  otherwise; a negative column becomes the end of the previous row when there is one,
  and 0 otherwise; any other column is kept.
\<close>

theorem MoveCursor_column_resolution:
  assumes "lines v \<noteq> []" and "fits (cx v + dx)" and "fits (cy v + dy)"
  shows "(cx (MoveCursor K dx dy v), cy (MoveCursor K dx dy v)) = columnResolution v dx dy"
proof -
  have "(cx (MoveCursor K dx dy v), cy (MoveCursor K dx dy v)) = cursorTarget v dx dy"
    using assms(1) by (simp add: MoveCursor_cx MoveCursor_cy)
  then show ?thesis
    unfolding cursorTarget_cases [OF assms(1)] columnResolution_def
      addInt_fits [OF assms(2)] addInt_fits [OF assms(3)] .
qed

theorem MoveCursor_column_resolution_witness:
  "lines (mkView [[97, 98], [99]] 2 0 False) \<noteq> [] \<and> fits (2 + 1) \<and> fits (0 + 0) \<and>
   cx (MoveCursor plainScreen 1 0 (mkView [[97, 98], [99]] 2 0 False)) = 0 \<and>
   cy (MoveCursor plainScreen 1 0 (mkView [[97, 98], [99]] 2 0 False)) = 1 \<and>
   cx (MoveCursor plainScreen 1 1 (mkView [[97, 98], [99]] 2 0 False)) = 1 \<and>
   cy (MoveCursor plainScreen 1 1 (mkView [[97, 98], [99]] 2 0 False)) = 1 \<and>
   cx (MoveCursor plainScreen (- 1) 0 (mkView [[97, 98], [99]] 0 1 False)) = 2 \<and>
   cy (MoveCursor plainScreen (- 1) 0 (mkView [[97, 98], [99]] 0 1 False)) = 0 \<and>
   cx (MoveCursor plainScreen (- 1) 0 (mkView [[97, 98], [99]] 0 0 False)) = 0 \<and>
   cy (MoveCursor plainScreen (- 1) 0 (mkView [[97, 98], [99]] 0 0 False)) = 0"
  using MoveCursor_column_resolution
      [where v = "mkView [[97, 98], [99]] 2 0 False" and K = plainScreen and dx = 1 and dy = 0]
    MoveCursor_column_resolution
      [where v = "mkView [[97, 98], [99]] 2 0 False" and K = plainScreen and dx = 1 and dy = 1]
    MoveCursor_column_resolution
      [where v = "mkView [[97, 98], [99]] 0 1 False" and K = plainScreen and dx = "- 1" and dy = 0]
    MoveCursor_column_resolution
      [where v = "mkView [[97, 98], [99]] 0 0 False" and K = plainScreen and dx = "- 1" and dy = 0]
  by (simp add: columnResolution_def fits_def minInt_def maxInt_def mkView_def len_def Let_def)

text \<open>
  C3, as stated, fails in three ways. When \<^verbatim>\<open>Wrap\<close> is on, \<^verbatim>\<open>MoveCursor\<close> leaves the
  horizontal offset alone, so a view scrolled one column to the right keeps the cursor
  at screen column 0 outside the window. When the buffer has no line, it returns before
  it looks at the offsets, so a view scrolled two rows down stays there. When the view
  has no row, the window is empty.
\<close>

theorem MoveCursor_visible_counterexample:
  "\<not> visibleX plainScreen ((mkView [[97, 98, 99]] 0 0 False)\<lparr>Wrap := True, ox := 1\<rparr>)
       (MoveCursor plainScreen 0 0 ((mkView [[97, 98, 99]] 0 0 False)\<lparr>Wrap := True, ox := 1\<rparr>)) \<and>
   \<not> visibleY plainScreen ((mkView [] 0 0 False)\<lparr>oy := 2\<rparr>)
       (MoveCursor plainScreen 0 0 ((mkView [] 0 0 False)\<lparr>oy := 2\<rparr>)) \<and>
   \<not> visibleY (plainScreen\<lparr>Size := \<lambda>v. (0, 0)\<rparr>) (mkView [[97, 98, 99]] 0 0 False)
       (MoveCursor (plainScreen\<lparr>Size := \<lambda>v. (0, 0)\<rparr>) 1 0 (mkView [[97, 98, 99]] 0 0 False))"
  by (simp add: visibleX_def visibleY_def MoveCursor_def cursorTarget_def scrollY_def scrollX_def
      addInt_eval plainScreen_def mkView_def len_def Let_def)

text \<open>
  C3, amended. After \<^verbatim>\<open>MoveCursor\<close> on a buffer with at least one line, for any
  deltas and collaborators: the screen row of the cursor lies in the vertical window
  when the view is at least one row high, and its screen column lies in the horizontal
  window when \<^verbatim>\<open>Wrap\<close> is off and the view is at least one column wide.
\<close>

theorem MoveCursor_visible:
  assumes "lines v \<noteq> []"
  shows "(1 \<le> snd (Size K v) \<longrightarrow> visibleY K v (MoveCursor K dx dy v)) \<and>
         (\<not> Wrap v \<and> 1 \<le> fst (Size K v) \<longrightarrow> visibleX K v (MoveCursor K dx dy v))"
proof (intro conjI impI)
  assume "1 \<le> snd (Size K v)"
  then show "visibleY K v (MoveCursor K dx dy v)"
    using assms scrollY_visible [of "snd (Size K v)" "oy v"]
    by (simp add: visibleY_def MoveCursor_cx MoveCursor_cy MoveCursor_oy case_prod_beta)
next
  assume "\<not> Wrap v \<and> 1 \<le> fst (Size K v)"
  then show "visibleX K v (MoveCursor K dx dy v)"
    using assms scrollX_visible [of "fst (Size K v)" "ox v"]
    by (simp add: visibleX_def MoveCursor_cx MoveCursor_cy MoveCursor_ox case_prod_beta)
qed

theorem MoveCursor_visible_witness:
  "lines (mkView [[97, 98, 99]] 0 0 False) \<noteq> [] \<and>
   \<not> Wrap (mkView [[97, 98, 99]] 0 0 False) \<and>
   Size plainScreen (mkView [[97, 98, 99]] 0 0 False) = (80, 24) \<and>
   visibleY plainScreen (mkView [[97, 98, 99]] 0 0 False)
     (MoveCursor plainScreen 2 0 (mkView [[97, 98, 99]] 0 0 False)) \<and>
   visibleX plainScreen (mkView [[97, 98, 99]] 0 0 False)
     (MoveCursor plainScreen 2 0 (mkView [[97, 98, 99]] 0 0 False))"
proof -
  have "lines (mkView [[97, 98, 99]] 0 0 False) \<noteq> []"
    by (simp add: mkView_def)
  from MoveCursor_visible [OF this, of plainScreen 2 0] show ?thesis
    by (simp add: mkView_def plainScreen_def)
qed

text \<open>
  C8, as stated, fails: the cursor does not always move left by one. On the line "ab"
  with the stale cursor at (5, 3), \<^verbatim>\<open>EditDelete\<close> calls \<^verbatim>\<open>MoveCursor(-1, 0)\<close>, which
  clamps the row to the last line and the column to its length: the cursor lands at
  (2, 0), not at (4, 3).
\<close>

theorem EditDelete_stale_cursor_counterexample:
  "len (lines (mkView [[97, 98]] 5 3 False)) \<le> cy (mkView [[97, 98]] 5 3 False) \<and>
   cx (EditDelete plainScreen True (mkView [[97, 98]] 5 3 False)) = 2 \<and>
   cy (EditDelete plainScreen True (mkView [[97, 98]] 5 3 False)) = 0 \<and>
   cx (EditDelete plainScreen True (mkView [[97, 98]] 5 3 False))
     \<noteq> cx (mkView [[97, 98]] 5 3 False) - 1 \<and>
   cy (EditDelete plainScreen True (mkView [[97, 98]] 5 3 False))
     \<noteq> cy (mkView [[97, 98]] 5 3 False)"
  by (simp add: EditDelete_def MoveCursor_cx MoveCursor_cy cursorTarget_def addInt_eval
      mkView_def len_def Let_def)

text \<open>
  C8, amended. When the cursor row is at or beyond the line count (and the column is
  above the least machine integer), \<^verbatim>\<open>EditDelete\<close> in either direction leaves the lines
  and the dirty flag unchanged and moves the cursor as \<^verbatim>\<open>MoveCursor(-1, 0)\<close> does: to
  (0, 0) when the buffer has no line; otherwise onto the last row, at the column minus
  one when that is a gap position of the last line, at the end of the last line when it
  is beyond, and, when it is negative, at the end of the row before the last, or at
  column 0 when the buffer has a single row.
\<close>

theorem EditDelete_stale_cursor:
  assumes "len (lines v) \<le> cy v" and "minInt < cx v"
  shows "lines (EditDelete K back v) = lines v \<and>
         tainted (EditDelete K back v) = tainted v \<and>
         (cx (EditDelete K back v), cy (EditDelete K back v)) =
           (if lines v = [] then (0, 0)
            else let last = len (lines v) - 1;
                     n = len (lines v ! nat last)
                 in if cx v - 1 > n then (n, last)
                    else if cx v - 1 < 0
                    then (if last > 0 then (len (lines v ! nat (last - 1)), last - 1)
                          else (0, last))
                    else (cx v - 1, last))"
proof -
  have "0 \<le> cy v" using assms(1) len_nonneg [of "lines v"] by linarith
  with assms(1) have E: "EditDelete K back v = MoveCursor K (- 1) 0 v"
    by (simp add: EditDelete_def Let_def)
  show ?thesis
  proof (cases "lines v = []")
    case True
    then show ?thesis by (simp add: E MoveCursor_cx MoveCursor_cy)
  next
    case False
    then have n: "0 < len (lines v)" by (simp add: len_def)
    have row: "max 0 (min (len (lines v) - 1) (addInt v (cy v) 0)) = len (lines v) - 1"
      using assms(1) n by (simp add: addInt_zero)
    have last: "\<not> len (lines v) - 1 + 1 < len (lines v)" by simp
    have "(cx (MoveCursor K (- 1) 0 v), cy (MoveCursor K (- 1) 0 v)) = cursorTarget v (- 1) 0"
      using False by (simp add: MoveCursor_cx MoveCursor_cy)
    also have "\<dots> =
        (let last = len (lines v) - 1;
             n = len (lines v ! nat last)
         in if cx v - 1 > n then (n, last)
            else if cx v - 1 < 0
            then (if last > 0 then (len (lines v ! nat (last - 1)), last - 1)
                  else (0, last))
            else (cx v - 1, last))"
      unfolding cursorTarget_cases [OF False] Let_def row addInt_pred [OF assms(2)]
      by (simp only: last simp_thms if_False)
    finally show ?thesis
      using False by (simp add: E)
  qed
qed

theorem EditDelete_stale_cursor_witness:
  "len (lines (mkView [[97, 98]] 5 3 False)) \<le> cy (mkView [[97, 98]] 5 3 False) \<and>
   minInt < cx (mkView [[97, 98]] 5 3 False) \<and>
   lines (EditDelete plainScreen False (mkView [[97, 98]] 5 3 False)) = map (map mkCell) [[97, 98]] \<and>
   cx (EditDelete plainScreen False (mkView [[97, 98]] 5 3 False)) = 2 \<and>
   cy (EditDelete plainScreen False (mkView [[97, 98]] 5 3 False)) = 0 \<and>
   cx (EditDelete plainScreen True (mkView [[97, 98], [99]] 0 2 False)) = 2 \<and>
   cy (EditDelete plainScreen True (mkView [[97, 98], [99]] 0 2 False)) = 0 \<and>
   cx (EditDelete plainScreen True (mkView [] 4 0 False)) = 0 \<and>
   cy (EditDelete plainScreen True (mkView [] 4 0 False)) = 0"
  using EditDelete_stale_cursor [of "mkView [[97, 98]] 5 3 False" plainScreen False]
    EditDelete_stale_cursor [of "mkView [[97, 98], [99]] 0 2 False" plainScreen True]
    EditDelete_stale_cursor [of "mkView [] 4 0 False" plainScreen True]
  by (simp add: minInt_def mkView_def len_def Let_def)

text \<open>
  C9. The default editor leaves the whole view unchanged on the escape key with
  character 0, whatever the modifier.
\<close>

theorem simpleEditor_escape:
  "simpleEditor K v KeyEsc 0 md = Returns v"
  by (simp add: simpleEditor_def)

theorem simpleEditor_escape_witness:
  "simpleEditor plainScreen (mkView [[97]] 1 0 False) KeyEsc 0 0
     = Returns (mkView [[97]] 1 0 False)"
  by (rule simpleEditor_escape)

subsection \<open>Splitting and merging a line\<close>

lemma cursorTarget_right:
  assumes "0 \<le> cy v" "cy v < len (lines v)" "0 \<le> cx v" "cx v < len (lines v ! nat (cy v))"
  shows "cursorTarget v 1 0 = (cx v + 1, cy v)"
proof -
  have ne: "lines v \<noteq> []" using assms by (auto simp: len_def)
  have "max 0 (min (len (lines v) - 1) (addInt v (cy v) 0)) = cy v"
    using assms by (simp add: addInt_zero)
  moreover have "addInt v (cx v) 1 = cx v + 1"
    using assms by (intro addInt_right) simp_all
  ultimately show ?thesis
    using assms by (simp add: cursorTarget_cases [OF ne] Let_def len_def)
qed

lemma cursorTarget_left_inside:
  assumes "0 \<le> cy v" "cy v < len (lines v)" "0 < cx v" "cx v - 1 \<le> len (lines v ! nat (cy v))"
  shows "cursorTarget v (- 1) 0 = (cx v - 1, cy v)"
proof -
  have ne: "lines v \<noteq> []" using assms by (auto simp: len_def)
  have "max 0 (min (len (lines v) - 1) (addInt v (cy v) 0)) = cy v"
    using assms by (simp add: addInt_zero)
  then show ?thesis
    using assms
    by (simp add: cursorTarget_cases [OF ne] Let_def len_def addInt_left [OF assms(3)])
qed

lemma addInt_start: "addInt v 0 (- 1) = - 1"
  by (simp add: addInt_def wrapInt_fits fits_def minInt_def maxInt_def)

lemma cursorTarget_left_start:
  assumes "0 < cy v" "cy v < len (lines v)" "cx v = 0"
  shows "cursorTarget v (- 1) 0 = (len (lines v ! nat (cy v - 1)), cy v - 1)"
proof -
  have ne: "lines v \<noteq> []" using assms by (auto simp: len_def)
  have "max 0 (min (len (lines v) - 1) (addInt v (cy v) 0)) = cy v"
    using assms by (simp add: addInt_zero)
  then show ?thesis
    using assms
    by (simp add: cursorTarget_cases [OF ne] Let_def len_def addInt_start)
qed

lemma split_merge_lines:
  assumes "y < length ls" and "ls1 = take y ls @ [a, b] @ drop (Suc y) ls"
  shows "take y ls1 @ [ls1 ! y @ ls1 ! Suc y] @ drop (Suc (Suc y)) ls1
         = take y ls @ [a @ b] @ drop (Suc y) ls"
proof -
  have l: "length (take y ls) = y" using assms by simp
  have "ls1 ! y = a" "ls1 ! Suc y = b"
    using l by (simp_all add: assms(2) nth_append)
  moreover have "take y ls1 = take y ls"
    using l by (simp add: assms(2))
  moreover have "drop (Suc (Suc y)) ls1 = drop (Suc y) ls"
    using l by (simp add: assms(2))
  ultimately show ?thesis by simp
qed

lemma EditNewLine_returns:
  assumes "0 \<le> cy v" "cy v < len (lines v)" "0 \<le> cx v"
  shows "EditNewLine v =
           Returns (v\<lparr>tainted := True,
                      lines := take (nat (cy v)) (lines v)
                               @ [take (nat (cx v)) (lines v ! nat (cy v)),
                                  drop (nat (cx v)) (lines v ! nat (cy v))]
                               @ drop (Suc (nat (cy v))) (lines v),
                      ox := 0, cy := cy v + 1, cx := 0\<rparr>)"
  by (simp add: EditNewLine_def breakLine_returns [OF assms])


lemma mergeLines_cursor [simp]:
  "cx (fst (mergeLines y v)) = cx v" "cy (fst (mergeLines y v)) = cy v"
  by (simp_all add: mergeLines_def Let_def)

lemma deleteRune_cursor [simp]:
  "cx (fst (deleteRune x y v)) = cx v" "cy (fst (deleteRune x y v)) = cy v"
  by (simp_all add: deleteRune_def Let_def)

lemma writeRune_cursor [simp]:
  "cx (fst (writeRune x y ch v)) = cx v" "cy (fst (writeRune x y ch v)) = cy v"
  by (simp_all add: writeRune_def Let_def)

lemma EditDelete_back_start:
  assumes "0 < cy v" "cy v < len (lines v)" "cx v = 0"
  shows "EditDelete K True v = fst (mergeLines (cy v - 1) (MoveCursor K (- 1) 0 v))"
  using assms by (simp add: EditDelete_def Let_def)

text \<open>
  C7. With the cursor inside the buffer, \<^verbatim>\<open>EditNewLine\<close> returns with the cursor at
  column 0 of the next row, and \<^verbatim>\<open>EditDelete(true)\<close> from there restores the lines of
  the buffer (so the line count and the line of the cursor) and the cursor.
\<close>

theorem newline_backspace_inverse:
  assumes "inBounds v"
  shows "\<exists>v1. EditNewLine v = Returns v1 \<and> cx v1 = 0 \<and> cy v1 = cy v + 1 \<and>
              lines (EditDelete K True v1) = lines v \<and>
              cx (EditDelete K True v1) = cx v \<and>
              cy (EditDelete K True v1) = cy v"
proof -
  define y where "y = nat (cy v)"
  define x where "x = nat (cx v)"
  define l where "l = lines v ! y"
  define ls1 where "ls1 = take y (lines v) @ [take x l, drop x l] @ drop (Suc y) (lines v)"
  define v1 where "v1 = v\<lparr>tainted := True, lines := ls1, ox := 0, cy := cy v + 1, cx := 0\<rparr>"
  have b: "0 \<le> cy v" "cy v < len (lines v)" "0 \<le> cx v" "cx v \<le> len l"
    using assms by (simp_all add: inBounds_def l_def y_def)
  have y: "y < length (lines v)" and x: "x \<le> length l"
    using b by (simp_all add: y_def x_def len_def)
  have new: "EditNewLine v = Returns v1"
    using EditNewLine_returns [OF b(1-3)]
    by (simp add: v1_def ls1_def l_def x_def y_def)
  have v1: "lines v1 = ls1" "cx v1 = 0" "cy v1 = cy v + 1"
    by (simp_all add: v1_def)
  have len1: "length ls1 = Suc (length (lines v))"
    using y by (simp add: ls1_def)
  have at_y: "ls1 ! y = take x l"
    using y by (simp add: ls1_def nth_append)
  define v2 where "v2 = MoveCursor K (- 1) 0 v1"
  have "cursorTarget v1 (- 1) 0 = (len (lines v1 ! nat (cy v1 - 1)), cy v1 - 1)"
    using b by (intro cursorTarget_left_start) (simp_all add: v1 len1 len_def)
  then have tgt: "cursorTarget v1 (- 1) 0 = (cx v, cy v)"
    using b x by (simp add: v1 at_y y_def [symmetric] len_def x_def)
  have ne1: "lines v1 \<noteq> []" using len1 by (auto simp: v1)
  have v2: "lines v2 = ls1" "cx v2 = cx v" "cy v2 = cy v"
    using ne1 by (simp_all add: v2_def v1 MoveCursor_cx MoveCursor_cy tgt)
  have del: "EditDelete K True v1 = fst (mergeLines (cy v) v2)"
    using b EditDelete_back_start [of v1 K]
    by (simp add: v1 len1 len_def v2_def)
  have "mergeLines (cy v) v2 =
      (v2\<lparr>tainted := True,
          lines := take (nat (cy v)) (lines v2)
                   @ [lines v2 ! nat (cy v) @ lines v2 ! Suc (nat (cy v))]
                   @ drop (Suc (Suc (nat (cy v)))) (lines v2)\<rparr>, None)"
    using b by (intro mergeLines_merges) (simp_all add: v2 len1 len_def)
  then have "lines (EditDelete K True v1)
      = take y ls1 @ [ls1 ! y @ ls1 ! Suc y] @ drop (Suc (Suc y)) ls1"
    by (simp add: del v2 y_def)
  also have "\<dots> = take y (lines v) @ [take x l @ drop x l] @ drop (Suc y) (lines v)"
    by (rule split_merge_lines [OF y ls1_def])
  also have "\<dots> = lines v"
    using y by (simp add: l_def id_take_nth_drop [symmetric])
  finally have "lines (EditDelete K True v1) = lines v" .
  moreover have "cx (EditDelete K True v1) = cx v" "cy (EditDelete K True v1) = cy v"
    by (simp_all add: del v2)
  ultimately show ?thesis
    using new v1 by blast
qed

theorem newline_backspace_inverse_witness:
  "inBounds (mkView [[97, 98, 99], [100]] 1 0 False) \<and>
   EditNewLine (mkView [[97, 98, 99], [100]] 1 0 False)
     = Returns ((mkView [[97], [98, 99], [100]] 0 1 False)\<lparr>tainted := True\<rparr>) \<and>
   lines (EditDelete plainScreen True ((mkView [[97], [98, 99], [100]] 0 1 False)\<lparr>tainted := True\<rparr>))
     = map (map mkCell) [[97, 98, 99], [100]] \<and>
   cx (EditDelete plainScreen True ((mkView [[97], [98, 99], [100]] 0 1 False)\<lparr>tainted := True\<rparr>)) = 1 \<and>
   cy (EditDelete plainScreen True ((mkView [[97], [98, 99], [100]] 0 1 False)\<lparr>tainted := True\<rparr>)) = 0"
proof -
  have b: "inBounds (mkView [[97, 98, 99], [100]] 1 0 False)"
    by (simp add: inBounds_def mkView_def len_def)
  have n: "EditNewLine (mkView [[97, 98, 99], [100]] 1 0 False)
     = Returns ((mkView [[97], [98, 99], [100]] 0 1 False)\<lparr>tainted := True\<rparr>)"
    by (simp add: EditNewLine_returns mkView_def len_def)
  from newline_backspace_inverse [OF b, of plainScreen] b n show ?thesis
    by (auto simp: mkView_def)
qed

subsection \<open>Writing and deleting a cell\<close>

lemma EditDelete_back_inside:
  assumes "0 \<le> cy v" "cy v < len (lines v)" "0 < cx v"
  shows "EditDelete K True v =
           (case deleteRune (cx v - 1) (cy v) v of
              (v1, None) \<Rightarrow> MoveCursor K (- 1) 0 v1
            | (v1, Some err) \<Rightarrow> v1)"
  using assms by (simp add: EditDelete_def Let_def)

lemma insert_delete_cell:
  "x \<le> length l \<Longrightarrow>
   take x (take x l @ c # drop x l) @ drop (Suc x) (take x l @ c # drop x l) = l"
  by simp

text \<open>
  C2, as stated, fails in Overwrite mode inside a line: on the line "abc" with the
  cursor at column 1, writing "X" replaces "b" and the backward delete removes "X",
  which leaves "ac". It also fails on the buffer without lines: the write creates a
  line and the delete leaves it there, empty.
\<close>

theorem write_backspace_counterexample:
  "lines (EditDelete plainScreen True (EditWrite plainScreen 88 (mkView [[97, 98, 99]] 1 0 True)))
     = map (map mkCell) [[97, 99]] \<and>
   lines (EditDelete plainScreen True (EditWrite plainScreen 88 (mkView [[97, 98, 99]] 1 0 True)))
     \<noteq> lines (mkView [[97, 98, 99]] 1 0 True) \<and>
   lines (EditDelete plainScreen True (EditWrite plainScreen 88 (mkView [] 0 0 False))) = [[]] \<and>
   lines (EditDelete plainScreen True (EditWrite plainScreen 88 (mkView [] 0 0 False)))
     \<noteq> lines (mkView [] 0 0 False)"
  by (simp add: EditDelete_def EditWrite_def writeRune_def deleteRune_def MoveCursor_def
      cursorTarget_def scrollX_def scrollY_def addInt_eval plainScreen_def mkView_def mkCell_def
      len_def go_copy_def Let_def)

text \<open>
  C2, amended. With the cursor inside the buffer, and Overwrite off or the cursor at the
  end of its line, \<^verbatim>\<open>EditWrite\<close> followed by \<^verbatim>\<open>EditDelete(true)\<close> restores the lines
  and the cursor.
\<close>

theorem write_backspace_inverse:
  assumes "inBounds v" and "\<not> Overwrite v \<or> cx v = len (lines v ! nat (cy v))"
  shows "lines (EditDelete K True (EditWrite K ch v)) = lines v \<and>
         cx (EditDelete K True (EditWrite K ch v)) = cx v \<and>
         cy (EditDelete K True (EditWrite K ch v)) = cy v"
proof -
  define y where "y = nat (cy v)"
  define x where "x = nat (cx v)"
  define l where "l = lines v ! y"
  define c where "c = \<lparr>fgColor = FgColor v, bgColor = BgColor v, chr = ch\<rparr>"
  define newl where "newl = take x l @ c # drop x l"
  have b: "0 \<le> cy v" "cy v < len (lines v)" "0 \<le> cx v" "cx v \<le> len l"
    using assms by (simp_all add: inBounds_def l_def y_def)
  have y: "y < length (lines v)" and x: "x \<le> length l"
    using b by (simp_all add: y_def x_def len_def)
  have ow: "\<not> (Overwrite v \<and> x < length l)"
    using assms(2) b by (auto simp: x_def l_def y_def len_def)
  have grow: "lines v @ replicate (Suc y - length (lines v)) [] = lines v"
    using y by simp
  define v1 where "v1 = fst (writeRune (cx v) (cy v) ch v)"
  have "writeRune (cx v) (cy v) ch v = (v\<lparr>tainted := True, lines := (lines v)[y := newl]\<rparr>, None)"
    using writeRune_writes [OF b(3) b(1), of ch v] ow x
    unfolding Let_def y_def [symmetric] x_def [symmetric] grow l_def [symmetric] c_def [symmetric]
    by (simp add: newl_def)
  then have v1: "lines v1 = (lines v)[y := newl]" "cx v1 = cx v" "cy v1 = cy v"
    by (simp_all add: v1_def)
  have newl: "length newl = Suc (length l)" using x by (simp add: newl_def)
  have at1: "lines v1 ! nat (cy v1) = newl"
    using y by (simp add: v1 y_def [symmetric])
  define v2 where "v2 = MoveCursor K 1 0 v1"
  have lenl: "len newl = len l + 1" using newl by (simp add: len_def)
  have p1: "0 \<le> cy v1" "cy v1 < len (lines v1)" "0 \<le> cx v1"
    using b by (simp_all add: v1 len_def)
  have p2: "cx v1 < len (lines v1 ! nat (cy v1))"
    unfolding at1 lenl using b by (simp add: v1)
  note cursorTarget_right [OF p1 p2]
  moreover have ne1: "lines v1 \<noteq> []" using y by (auto simp: v1)
  ultimately have v2: "lines v2 = (lines v)[y := newl]" "cx v2 = cx v + 1" "cy v2 = cy v"
    by (simp_all add: v2_def v1 MoveCursor_cx MoveCursor_cy)
  have w: "EditWrite K ch v = v2"
    by (simp add: EditWrite_def v2_def v1_def)
  have at2: "lines v2 ! nat (cy v2) = newl"
    using y by (simp add: v2 y_def [symmetric])
  define v3 where "v3 = fst (deleteRune (cx v) (cy v) v2)"
  have d: "deleteRune (cx v) (cy v) v2 =
      (v2\<lparr>tainted := True,
          lines := (lines v2)[nat (cy v) := take (nat (cx v)) (lines v2 ! nat (cy v))
                                            @ drop (Suc (nat (cx v))) (lines v2 ! nat (cy v))]\<rparr>,
       None)"
  proof (rule deleteRune_deletes)
    show "0 \<le> cy v" "0 \<le> cx v" by (rule b)+
    show "cy v < len (lines v2)" using b by (simp add: v2 len_def)
    show "cx v < len (lines v2 ! nat (cy v))"
      using b at2 lenl by (simp add: v2)
  qed
  have v3: "lines v3 = lines v" "cx v3 = cx v + 1" "cy v3 = cy v"
    using x y at2
    by (simp_all add: v3_def d v2 y_def [symmetric] x_def [symmetric] newl_def l_def)
  have del: "EditDelete K True v2 = MoveCursor K (- 1) 0 v3"
    using b EditDelete_back_inside [of v2 K] d
    by (simp add: v2 len_def v3_def)
  have "cursorTarget v3 (- 1) 0 = (cx v3 - 1, cy v3)"
  proof (rule cursorTarget_left_inside)
    show "0 \<le> cy v3" "cy v3 < len (lines v3)" "0 < cx v3"
      using b by (simp_all add: v3)
    show "cx v3 - 1 \<le> len (lines v3 ! nat (cy v3))"
      using b by (simp add: v3 l_def y_def)
  qed
  moreover have "lines v3 \<noteq> []" using y by (auto simp: v3)
  ultimately show ?thesis
    by (simp add: w del MoveCursor_cx MoveCursor_cy v3)
qed

theorem write_backspace_inverse_witness:
  "inBounds (mkView [[97, 98, 99]] 1 0 False) \<and>
   \<not> Overwrite (mkView [[97, 98, 99]] 1 0 False) \<and>
   lines (EditDelete plainScreen True (EditWrite plainScreen 88 (mkView [[97, 98, 99]] 1 0 False)))
     = map (map mkCell) [[97, 98, 99]] \<and>
   cx (EditDelete plainScreen True (EditWrite plainScreen 88 (mkView [[97, 98, 99]] 1 0 False))) = 1 \<and>
   cy (EditDelete plainScreen True (EditWrite plainScreen 88 (mkView [[97, 98, 99]] 1 0 False))) = 0"
proof -
  have b: "inBounds (mkView [[97, 98, 99]] 1 0 False)"
    by (simp add: inBounds_def mkView_def len_def)
  have o: "\<not> Overwrite (mkView [[97, 98, 99]] 1 0 False)"
    by (simp add: mkView_def)
  from write_backspace_inverse [OF b disjI1 [OF o], of plainScreen 88] b o show ?thesis
    by (simp add: mkView_def)
qed

subsection \<open>The bounds of the cursor\<close>

lemma cursorTarget_inside:
  assumes "lines v \<noteq> []"
  shows "0 \<le> snd (cursorTarget v dx dy) \<and> snd (cursorTarget v dx dy) < len (lines v) \<and>
         0 \<le> fst (cursorTarget v dx dy) \<and>
         fst (cursorTarget v dx dy) \<le> len (lines v ! nat (snd (cursorTarget v dx dy)))"
proof -
  define X where "X = addInt v (cx v) dx"
  define R where "R = max 0 (min (len (lines v) - 1) (addInt v (cy v) dy))"
  have n: "0 < len (lines v)" using assms by (simp add: len_def)
  have R: "0 \<le> R" "R < len (lines v)" using n by (simp_all add: R_def)
  have a: "nat (R + 1) = Suc (nat R)" using R by simp
  show ?thesis
    unfolding cursorTarget_cases [OF assms] Let_def R_def [symmetric] X_def [symmetric]
    using R by (simp add: a)
qed

lemma MoveCursor_inBounds:
  "lines v \<noteq> [] \<Longrightarrow> inBounds (MoveCursor K dx dy v)"
  using cursorTarget_inside [of v dx dy]
  by (simp add: inBounds_def MoveCursor_cx MoveCursor_cy)

lemma MoveCursor_reachBounds: "reachBounds (MoveCursor K dx dy v)"
  by (cases "lines v = []")
    (simp_all add: reachBounds_def MoveCursor_inBounds MoveCursor_cx MoveCursor_cy)


lemma inBounds_nonempty: "inBounds v \<Longrightarrow> lines v \<noteq> []"
  by (auto simp: inBounds_def len_def)

lemma inBounds_tainted [simp]: "inBounds (v\<lparr>tainted := b\<rparr>) = inBounds v"
  by (simp add: inBounds_def)

lemma reachBounds_tainted [simp]: "reachBounds (v\<lparr>tainted := b\<rparr>) = reachBounds v"
  by (simp add: reachBounds_def)

lemma mergeLines_inBounds:
  assumes "0 \<le> cy v" "cy v + 1 < len (lines v)" "0 \<le> cx v" "cx v \<le> len (lines v ! nat (cy v))"
  shows "inBounds (fst (mergeLines (cy v) v))"
proof -
  define y where "y = nat (cy v)"
  have y: "Suc y < length (lines v)" using assms by (simp add: y_def len_def)
  have l: "length (take y (lines v)) = y" using y by simp
  have "(take y (lines v) @ [lines v ! y @ lines v ! Suc y] @ drop (Suc (Suc y)) (lines v)) ! y
        = lines v ! y @ lines v ! Suc y"
    using l by (simp add: nth_append)
  then show ?thesis
    using assms y l
    by (simp add: inBounds_def mergeLines_merges [OF assms(1,2)] y_def [symmetric] len_def)
qed

lemma deleteRune_here_inBounds:
  assumes "inBounds v" "cx v < len (lines v ! nat (cy v))"
  shows "inBounds (fst (deleteRune (cx v) (cy v) v))"
proof -
  have b: "0 \<le> cy v" "cy v < len (lines v)" "0 \<le> cx v"
    using assms by (simp_all add: inBounds_def)
  show ?thesis
    using assms b
    by (simp add: inBounds_def deleteRune_deletes [OF b(1,2,3) assms(2)] len_def)
qed

lemma EditDelete_forward:
  assumes "0 \<le> cy v" "cy v < len (lines v)"
  shows "EditDelete K False v =
           (if cx v = len (lines v ! nat (cy v)) then fst (mergeLines (cy v) v)
            else fst (deleteRune (cx v) (cy v) v))"
  using assms by (simp add: EditDelete_def Let_def)

lemma EditDelete_back_step:
  assumes "inBounds v" "0 < cx v"
  shows "inBounds (EditDelete K True v) \<and> cx (EditDelete K True v) = cx v - 1"
proof -
  have b: "0 \<le> cy v" "cy v < len (lines v)" "cx v \<le> len (lines v ! nat (cy v))"
    using assms by (simp_all add: inBounds_def)
  define v3 where "v3 = fst (deleteRune (cx v - 1) (cy v) v)"
  have d: "deleteRune (cx v - 1) (cy v) v =
      (v\<lparr>tainted := True,
         lines := (lines v)[nat (cy v) := take (nat (cx v - 1)) (lines v ! nat (cy v))
                                          @ drop (Suc (nat (cx v - 1))) (lines v ! nat (cy v))]\<rparr>,
       None)"
    using b assms(2) by (intro deleteRune_deletes) simp_all
  have v3: "cx v3 = cx v" "cy v3 = cy v" "len (lines v3) = len (lines v)"
    "len (lines v3 ! nat (cy v)) = len (lines v ! nat (cy v)) - 1"
    using b assms(2) by (simp_all add: v3_def d len_def)
  have del: "EditDelete K True v = MoveCursor K (- 1) 0 v3"
    using b assms(2) EditDelete_back_inside [of v K] d by (simp add: v3_def)
  have ne: "lines v3 \<noteq> []" using b v3(3) by (auto simp: len_def)
  have "cursorTarget v3 (- 1) 0 = (cx v3 - 1, cy v3)"
    using b assms(2) by (intro cursorTarget_left_inside) (simp_all add: v3)
  then have "cx (MoveCursor K (- 1) 0 v3) = cx v - 1"
    using ne by (simp add: MoveCursor_cx v3)
  with MoveCursor_inBounds [OF ne, of K "- 1" 0] show ?thesis
    by (simp add: del)
qed

lemma EditDelete_reachBounds:
  assumes "reachBounds v"
  shows "reachBounds (EditDelete K back v)"
proof (cases "lines v = []")
  case True
  with assms have "0 \<le> cy v" "len (lines v) \<le> cy v"
    by (simp_all add: reachBounds_def len_def)
  then have "EditDelete K back v = MoveCursor K (- 1) 0 v"
    by (simp add: EditDelete_def Let_def)
  then show ?thesis by (simp add: MoveCursor_reachBounds)
next
  case False
  with assms have ib: "inBounds v" by (simp add: reachBounds_def)
  then have b: "0 \<le> cy v" "cy v < len (lines v)" "0 \<le> cx v"
    "cx v \<le> len (lines v ! nat (cy v))"
    by (simp_all add: inBounds_def)
  have reach: "reachBounds w" if "inBounds w" for w
    using that inBounds_nonempty [OF that] by (simp add: reachBounds_def)
  consider (first) "back" "cx v = 0" "cy v = 0"
    | (start) "back" "cx v = 0" "0 < cy v"
    | (inside) "back" "0 < cx v"
    | (merge) "\<not> back" "cx v = len (lines v ! nat (cy v))" "cy v + 1 < len (lines v)"
    | (last) "\<not> back" "cx v = len (lines v ! nat (cy v))" "cy v + 1 = len (lines v)"
    | (cell) "\<not> back" "cx v < len (lines v ! nat (cy v))"
    using b by fastforce
  then show ?thesis
  proof cases
    case first
    then have "EditDelete K back v = v" using b by (simp add: EditDelete_def Let_def)
    with assms show ?thesis by simp
  next
    case start
    define v1 where "v1 = MoveCursor K (- 1) 0 v"
    have "cursorTarget v (- 1) 0 = (len (lines v ! nat (cy v - 1)), cy v - 1)"
      using start b by (intro cursorTarget_left_start)
    then have v1: "lines v1 = lines v" "cx v1 = len (lines v ! nat (cy v - 1))" "cy v1 = cy v - 1"
      using False by (simp_all add: v1_def MoveCursor_cx MoveCursor_cy)
    have "inBounds (fst (mergeLines (cy v1) v1))"
      using start b by (intro mergeLines_inBounds) (simp_all add: v1)
    then show ?thesis
      using start b EditDelete_back_start [of v K]
      by (simp add: v1_def [symmetric] v1 reach)
  next
    case inside
    with EditDelete_back_step [OF ib, of K] show ?thesis by (simp add: reach)
  next
    case merge
    with b mergeLines_inBounds [of v] EditDelete_forward [OF b(1,2), of K] show ?thesis
      by (simp add: reach)
  next
    case last
    with b assms EditDelete_forward [OF b(1,2), of K] show ?thesis
      by (simp add: mergeLines_last)
  next
    case cell
    with deleteRune_here_inBounds [OF ib] EditDelete_forward [OF b(1,2), of K] show ?thesis
      by (simp add: reach)
  qed
qed

lemma EditWrite_reachBounds: "reachBounds (EditWrite K ch v)"
  by (simp add: EditWrite_def MoveCursor_reachBounds)

lemma EditNewLine_reachBounds:
  assumes "reachBounds v"
  shows "\<exists>v'. EditNewLine v = Returns v' \<and> reachBounds v'"
proof (cases "lines v = []")
  case True
  with assms have c: "cx v = 0" "0 \<le> cy v" by (simp_all add: reachBounds_def)
  with True have "len (lines v) \<le> cy v" by (simp add: len_def)
  then have "breakLine (cx v) (cy v) v = (v\<lparr>tainted := True\<rparr>, Returns (Some InvalidPoint))"
    by (simp add: breakLine_invalid)
  with True c show ?thesis
    by (simp add: EditNewLine_def reachBounds_def)
next
  case False
  with assms have ib: "inBounds v" by (simp add: reachBounds_def)
  then have b: "0 \<le> cy v" "cy v < len (lines v)" "0 \<le> cx v"
    by (simp_all add: inBounds_def)
  have y: "nat (cy v) < length (lines v)" using b by (simp add: len_def)
  show ?thesis
    using b y
    by (simp add: EditNewLine_returns [OF b] reachBounds_def inBounds_def len_def nth_append)
qed

lemma inBounds_reach: "inBounds v \<Longrightarrow> reachBounds v"
  using inBounds_nonempty [of v] by (simp add: reachBounds_def)

lemma EditGotoToStartOfLine_reachBounds:
  "reachBounds v \<Longrightarrow> reachBounds (EditGotoToStartOfLine K v)"
proof (induction K v rule: EditGotoToStartOfLine.induct)
  case (1 K v)
  show ?case
  proof (cases "fst (Cursor v) > 0")
    case True
    with "1.IH" [OF True MoveCursor_reachBounds] show ?thesis
      by (subst EditGotoToStartOfLine.simps) simp
  next
    case False
    with "1.prems" show ?thesis
      by (subst EditGotoToStartOfLine.simps) simp
  qed
qed

lemma cursorTarget_right_end:
  assumes "0 \<le> cy v" "cy v + 1 = len (lines v)" "cx v = len (lines v ! nat (cy v))"
  shows "cursorTarget v 1 0 = (cx v, cy v)"
proof -
  have ne: "lines v \<noteq> []" using assms by (auto simp: len_def)
  have R: "max 0 (min (len (lines v) - 1) (addInt v (cy v) 0)) = cy v"
    using assms by (simp add: addInt_zero)
  have X: "addInt v (cx v) 1 = cx v + 1"
    using assms by (intro addInt_right) simp_all
  have c: "len (lines v ! nat (cy v)) < cx v + 1" using assms(3) by simp
  have f: "\<not> cy v + 1 < len (lines v)" using assms(2) by simp
  show ?thesis
    unfolding cursorTarget_cases [OF ne] Let_def R X
    using c f assms(3) [symmetric] by simp
qed

lemma gotoEndLoop_last_row:
  assumes "inBounds v" "cy v + 1 = len (lines v)"
  shows "\<exists>v'. gotoEndLoop K p v = Some v' \<and> inBounds v'"
  using assms
proof (induction "nat (len (lines v ! nat (cy v)) - cx v)" arbitrary: v p rule: less_induct)
  case less
  have b: "0 \<le> cy v" "cy v < len (lines v)" "0 \<le> cx v" "cx v \<le> len (lines v ! nat (cy v))"
    using less.prems by (simp_all add: inBounds_def)
  have ne: "lines v \<noteq> []" by (rule inBounds_nonempty [OF less.prems(1)])
  define v1 where "v1 = MoveCursor K 1 0 v"
  have ib1: "inBounds v1" unfolding v1_def by (rule MoveCursor_inBounds [OF ne])
  show ?case
  proof (cases "p = cx v")
    case True
    with less.prems show ?thesis
      by (subst gotoEndLoop.simps) (simp add: Cursor_def)
  next
    case False
    then have step: "gotoEndLoop K p v = gotoEndLoop K (cx v) v1"
      by (subst gotoEndLoop.simps) (simp add: Cursor_def v1_def)
    show ?thesis
    proof (cases "cx v < len (lines v ! nat (cy v))")
      case True
      have "cursorTarget v 1 0 = (cx v + 1, cy v)"
        using b True by (intro cursorTarget_right)
      then have v1: "lines v1 = lines v" "cx v1 = cx v + 1" "cy v1 = cy v"
        using ne by (simp_all add: v1_def MoveCursor_cx MoveCursor_cy)
      have "nat (len (lines v1 ! nat (cy v1)) - cx v1) < nat (len (lines v ! nat (cy v)) - cx v)"
        using True by (simp add: v1)
      from less.hyps [OF this ib1, of "cx v"] less.prems(2) show ?thesis
        by (simp add: step v1)
    next
      case False
      with b have "cx v = len (lines v ! nat (cy v))" by simp
      with b less.prems(2) have "cursorTarget v 1 0 = (cx v, cy v)"
        by (intro cursorTarget_right_end)
      then have "cx v1 = cx v"
        using ne by (simp add: v1_def MoveCursor_cx)
      then have "gotoEndLoop K (cx v) v1 = Some v1"
        by (subst gotoEndLoop.simps) (simp add: Cursor_def)
      with ib1 show ?thesis by (simp add: step)
    qed
  qed
qed

lemma gotoEndLoop_no_lines:
  assumes "lines v = []" "cx v = 0" "0 \<le> cy v"
  shows "\<exists>v'. gotoEndLoop K p v = Some v' \<and> reachBounds v'"
proof (cases "p = cx v")
  case True
  with assms show ?thesis
    by (subst gotoEndLoop.simps) (simp add: Cursor_def reachBounds_def)
next
  case False
  have "cx (MoveCursor K 1 0 v) = cx v"
    using assms by (simp add: MoveCursor_cx)
  then have "gotoEndLoop K (cx v) (MoveCursor K 1 0 v) = Some (MoveCursor K 1 0 v)"
    by (subst gotoEndLoop.simps) (simp add: Cursor_def)
  with False show ?thesis
    by (subst gotoEndLoop.simps) (simp add: Cursor_def MoveCursor_reachBounds)
qed

lemma SetCursor_next_row:
  "SetCursor 0 y v =
     (if lines v = [] then v\<lparr>cx := 0, cy := 0\<rparr>
      else v\<lparr>cx := 0, cy := max 0 (min (len (lines v) - 1) y)\<rparr>)"
proof (cases "lines v = []")
  case True
  then show ?thesis by (simp add: SetCursor_def)
next
  case False
  define n where "n = len (lines v)"
  have n: "1 \<le> n" using False by (simp add: n_def len_def Suc_le_eq)
  have row: "(if (if y \<ge> n then n - 1 else y) < 0 then 0 else (if y \<ge> n then n - 1 else y))
             = max 0 (min (n - 1) y)"
    using n by (simp add: max_def min_def)
  have col: "(if (if 0 > len l then len l else 0) < 0 then 0 else (if 0 > len l then len l else 0))
             = 0" for l :: "cell list"
    by (simp add: len_def)
  show ?thesis
    using False unfolding SetCursor_def Let_def n_def [symmetric] row col
    by simp
qed

lemma EditGotoToEndOfLine_reachBounds:
  assumes "reachBounds v"
  shows "\<exists>v'. EditGotoToEndOfLine K v = Some v' \<and> reachBounds v'"
proof (cases "lines v = []")
  case True
  define v1 where "v1 = v\<lparr>cx := 0, cy := 0\<rparr>"
  have v1: "lines v1 = []" "cx v1 = 0" "cy v1 = 0" using True by (simp_all add: v1_def)
  have E: "EditGotoToEndOfLine K v =
      (if 0 = cy v then gotoEndLoop K (- 1) v1 else Some (MoveCursor K (- 1) 0 v1))"
    using True by (simp add: EditGotoToEndOfLine_def SetCursor_next_row Cursor_def Let_def v1_def)
  from gotoEndLoop_no_lines [of v1 K "- 1"] v1 show ?thesis
    by (auto simp: E MoveCursor_reachBounds)
next
  case False
  with assms have ib: "inBounds v" by (simp add: reachBounds_def)
  then have b: "0 \<le> cy v" "cy v < len (lines v)" "0 \<le> cx v"
    by (simp_all add: inBounds_def)
  define r where "r = max 0 (min (len (lines v) - 1) (cy v + 1))"
  define v1 where "v1 = v\<lparr>cx := 0, cy := r\<rparr>"
  have S: "SetCursor 0 (cy v + 1) v = v1"
    using False by (simp only: SetCursor_next_row v1_def r_def if_False)
  have c1: "cy v1 = r" by (simp add: v1_def)
  have E: "EditGotoToEndOfLine K v =
      (if r = cy v then gotoEndLoop K (- 1) v1 else Some (MoveCursor K (- 1) 0 v1))"
    by (simp add: EditGotoToEndOfLine_def Cursor_def Let_def S c1)
  show ?thesis
  proof (cases "r = cy v")
    case True
    have last: "cy v + 1 = len (lines v)"
      using b True unfolding r_def by linarith
    have "inBounds v1" using b True by (simp add: inBounds_def v1_def)
    moreover have "cy v1 + 1 = len (lines v1)" using last True by (simp add: v1_def)
    ultimately obtain v' where "gotoEndLoop K (- 1) v1 = Some v'" "inBounds v'"
      using gotoEndLoop_last_row by blast
    with True show ?thesis by (simp add: E inBounds_reach)
  next
    case False
    then show ?thesis by (simp add: E MoveCursor_reachBounds)
  qed
qed

lemma deleteToStartLoop_inBounds:
  assumes "inBounds v"
  shows "\<exists>v'. deleteToStartLoop K v = Some v' \<and> inBounds v'"
  using assms
proof (induction "nat (cx v)" arbitrary: v rule: less_induct)
  case less
  show ?case
  proof (cases "0 < cx v")
    case True
    from EditDelete_back_step [OF less.prems True, of K]
    have s: "inBounds (EditDelete K True v)" "cx (EditDelete K True v) = cx v - 1" by simp_all
    have "nat (cx (EditDelete K True v)) < nat (cx v)" using True s(2) by simp
    from less.hyps [OF this s(1)] True show ?thesis
      by (subst deleteToStartLoop.simps) (simp add: Cursor_def)
  next
    case False
    with less.prems show ?thesis
      by (subst deleteToStartLoop.simps) (simp add: Cursor_def)
  qed
qed

lemma EditDeleteToStartOfLine_reachBounds:
  assumes "reachBounds v"
  shows "\<exists>v'. EditDeleteToStartOfLine K v = Some v' \<and> reachBounds v'"
proof (cases "cx v = 0")
  case True
  with EditDelete_reachBounds [OF assms, of K True] show ?thesis
    by (simp add: EditDeleteToStartOfLine_def Cursor_def)
next
  case False
  with assms have "inBounds v" by (simp add: reachBounds_def split: if_splits)
  from deleteToStartLoop_inBounds [OF this, of K] False show ?thesis
    by (auto simp: EditDeleteToStartOfLine_def Cursor_def inBounds_reach)
qed

lemma perform_reachBounds:
  assumes "reachBounds v"
  shows "\<exists>v'. perform K p v = Some (Returns v') \<and> reachBounds v'"
proof (cases p)
  case (OpEditWrite ch)
  then show ?thesis by (simp add: perform_def EditWrite_reachBounds)
next
  case (OpEditDelete b)
  then show ?thesis by (simp add: perform_def EditDelete_reachBounds [OF assms])
next
  case OpEditNewLine
  from EditNewLine_reachBounds [OF assms]
  obtain v' where "EditNewLine v = Returns v'" "reachBounds v'" by blast
  with OpEditNewLine show ?thesis by (simp add: perform_def)
next
  case (OpMoveCursor dx dy)
  then show ?thesis by (simp add: perform_def MoveCursor_reachBounds)
next
  case OpEditGotoToStartOfLine
  then show ?thesis by (simp add: perform_def EditGotoToStartOfLine_reachBounds [OF assms])
next
  case OpEditGotoToEndOfLine
  from EditGotoToEndOfLine_reachBounds [OF assms, of K]
  obtain v' where "EditGotoToEndOfLine K v = Some v'" "reachBounds v'" by blast
  with OpEditGotoToEndOfLine show ?thesis by (simp add: perform_def)
next
  case OpEditDeleteToStartOfLine
  from EditDeleteToStartOfLine_reachBounds [OF assms, of K]
  obtain v' where "EditDeleteToStartOfLine K v = Some v'" "reachBounds v'" by blast
  with OpEditDeleteToStartOfLine show ?thesis by (simp add: perform_def)
qed

lemma run_reachBounds:
  "reachBounds v \<Longrightarrow> \<exists>v'. run K ps v = Some (Returns v') \<and> reachBounds v'"
proof (induction ps arbitrary: v)
  case Nil
  then show ?case by simp
next
  case (Cons p ps)
  from perform_reachBounds [OF Cons.prems, of K p]
  obtain v1 where "perform K p v = Some (Returns v1)" "reachBounds v1" by blast
  with Cons.IH [OF this(2)] show ?case by simp
qed

lemma reachBounds_boundsInvariant:
  "reachBounds v \<Longrightarrow> lines v \<noteq> [] \<Longrightarrow> boundsInvariant v"
  by (simp add: reachBounds_def inBounds_def boundsInvariant_def len_def)

text \<open>
  C1. The bounds of the cursor, 0 \<open>\<le>\<close> row \<open><\<close> max 1 lineCount and 0 \<open>\<le>\<close> column \<open>\<le>\<close>
  length of the line, are to hold after each call of every sequence of operations from
  the initial empty state. The code breaks them at the first call: \<^verbatim>\<open>EditNewLine\<close>
  on the new, empty view drops the error of \<^verbatim>\<open>breakLine\<close>, inserts no line and
  advances the row, so the cursor is at row 1 of a buffer without lines.
\<close>

theorem EditNewLine_empty_view:
  "initialView (mkView [] 0 0 False) \<and>
   run plainScreen [OpEditNewLine] (mkView [] 0 0 False)
     = Some (Returns ((mkView [] 0 1 False)\<lparr>tainted := True\<rparr>)) \<and>
   lines ((mkView [] 0 1 False)\<lparr>tainted := True\<rparr>) = [] \<and>
   cy ((mkView [] 0 1 False)\<lparr>tainted := True\<rparr>) = 1 \<and>
   \<not> boundsInvariant ((mkView [] 0 1 False)\<lparr>tainted := True\<rparr>)"
  by (simp add: initialView_def boundsInvariant_def perform_def EditNewLine_def breakLine_def
      mkView_def len_def Let_def)

text \<open>
  The extent of the defect: from the initial state every sequence of operations returns
  (no call panics or runs forever); the bounds hold whenever the buffer has a line, and
  a buffer without lines has its cursor at column 0 of the row that \<^verbatim>\<open>EditNewLine\<close>
  advanced.
\<close>

lemma operations_return:
  assumes "initialView v0"
  shows "\<exists>v. run K ps v0 = Some (Returns v) \<and>
             (lines v \<noteq> [] \<longrightarrow> boundsInvariant v) \<and>
             (lines v = [] \<longrightarrow> cx v = 0 \<and> 0 \<le> cy v)"
proof -
  have "reachBounds v0"
    using assms by (simp add: initialView_def reachBounds_def)
  from run_reachBounds [OF this, of K ps]
  obtain v where v: "run K ps v0 = Some (Returns v)" "reachBounds v" by blast
  have "lines v \<noteq> [] \<longrightarrow> boundsInvariant v"
    using v(2) by (simp add: reachBounds_boundsInvariant)
  moreover have "lines v = [] \<longrightarrow> cx v = 0 \<and> 0 \<le> cy v"
    using v(2) by (simp add: reachBounds_def)
  ultimately show ?thesis using v(1) by blast
qed

end
